theory Spec2Isabelle
  imports Main
begin

text \<open>
  A model of facehugger, the tool that downloads the models listed in a manifest. The
  functions of \<open>facehugger.py\<close> are embedded under their names, each returning its
  result together with the effects it has, and the schema of \<open>models.py\<close> is
  embedded as the validation that pydantic derives from it. What the program calls
  outside itself is either a parameter (the YAML parser, the \<open>hf\<close> subprocess, the
  hub client) or, for the line diff of the standard library, a model of its own.
\<close>

section \<open>Strings\<close>

text \<open>
  A Python \<open>str\<close> is modelled by its UTF-8 encoding, a \<open>string\<close> (list of
  8-bit characters). Only the operations the program uses are defined.
\<close>

text \<open>\<open>sep.join(parts)\<close>.\<close>

fun str_join :: "string \<Rightarrow> string list \<Rightarrow> string" where
  "str_join sep [] = []"
| "str_join sep [x] = x"
| "str_join sep (x # y # ys) = x @ sep @ str_join sep (y # ys)"

section \<open>The manifest model (models.py)\<close>

text \<open>
  \<open>include\<close> and \<open>exclude\<close> are typed \<open>Optional[Union[str, List[str]]]\<close>:
  a value that is present is either one string or a list of strings.
\<close>

datatype patterns = Single string | Many "string list"

text \<open>
  \<open>class ModelConfig(BaseModel)\<close>. The fields \<open>include\<close> and \<open>exclude\<close>
  are named \<open>include_patterns\<close> and \<open>exclude_patterns\<close> here, since
  \<open>include\<close> is reserved in Isabelle.
\<close>

record ModelConfig =
  repo :: string
  ref :: "string option"
  include_patterns :: "patterns option"
  exclude_patterns :: "patterns option"

record FacehuggerManifest =
  models :: "ModelConfig list"

section \<open>The command formatter (build\_hf\_command)\<close>

text \<open>
  Python truthiness of the optional arguments: \<open>None\<close>, the empty string and the
  empty list are false.
\<close>

fun truthy_str :: "string option \<Rightarrow> bool" where
  "truthy_str None = False"
| "truthy_str (Some s) = (s \<noteq> [])"

fun truthy_patterns :: "patterns option \<Rightarrow> bool" where
  "truthy_patterns None = False"
| "truthy_patterns (Some (Single s)) = (s \<noteq> [])"
| "truthy_patterns (Some (Many ps)) = (ps \<noteq> [])"

text \<open>The loop \<open>for pat in pats: parts.extend([flag, pat])\<close>.\<close>

fun extend_each :: "string \<Rightarrow> string list \<Rightarrow> string list \<Rightarrow> string list" where
  "extend_each flag parts [] = parts"
| "extend_each flag parts (pat # pats) = extend_each flag (parts @ [flag, pat]) pats"

text \<open>
  The block \<open>if pats: if isinstance(pats, list): ... else: parts.extend([flag, pats])\<close>,
  which the source writes once for \<open>--include\<close> and once for \<open>--exclude\<close>.
\<close>

definition extend_flag :: "string \<Rightarrow> patterns option \<Rightarrow> string list \<Rightarrow> string list" where
  "extend_flag flag pats parts =
     (if truthy_patterns pats then
        (case pats of
           Some (Many ps) \<Rightarrow> extend_each flag parts ps
         | Some (Single p) \<Rightarrow> parts @ [flag, p]
         | None \<Rightarrow> parts)
      else parts)"

definition build_hf_command ::
  "string \<Rightarrow> string option \<Rightarrow> patterns option \<Rightarrow> patterns option \<Rightarrow> string" where
  "build_hf_command repo_arg ref_arg include exclude =
     (let parts = [''hf'', ''download'', repo_arg];
          parts = (case ref_arg of
                     Some r \<Rightarrow>
                       if truthy_str ref_arg
                       then parts[length parts - 1 := repo_arg @ ''@'' @ r]
                       else parts
                   | None \<Rightarrow> parts);
          parts = extend_flag ''--include'' include parts;
          parts = extend_flag ''--exclude'' exclude parts
      in str_join '' '' parts)"

section \<open>Parsed documents and schema validation\<close>

text \<open>
  What \<open>yaml.safe_load\<close> returns: \<open>None\<close>, booleans, integers, strings,
  lists and dictionaries. A dictionary is an association list read with \<open>map_of\<close>;
  the validation only ever looks up the string keys of the schema.
\<close>

datatype pyval =
    PNone
  | PBool bool
  | PInt int
  | PStr string
  | PList "pyval list"
  | PDict "(string \<times> pyval) list"

text \<open>Python truthiness, as used by \<open>yaml.safe_load(f) or {}\<close>.\<close>

fun truthy :: "pyval \<Rightarrow> bool" where
  "truthy PNone = False"
| "truthy (PBool b) = b"
| "truthy (PInt i) = (i \<noteq> 0)"
| "truthy (PStr s) = (s \<noteq> [])"
| "truthy (PList xs) = (xs \<noteq> [])"
| "truthy (PDict kvs) = (kvs \<noteq> [])"

text \<open>
  \<open>model_validate\<close> is pydantic's; what it accepts follows from the field types of
  \<open>models.py\<close>: a \<open>str\<close> field takes a string and no other scalar, an
  \<open>Optional\<close> field also takes \<open>None\<close>, a \<open>List\<close> field takes a list whose
  items are validated one by one, a model takes a dictionary.

  A \<open>ValidationError\<close> lists the offending fields. It is modelled by the list of
  their locations, a location being a path of names (of fields, and of the branches
  of a union) and list indices.
\<close>

datatype loc_item = Field string | Index nat

type_synonym location = "loc_item list"

type_synonym validation_error = "location list"

text \<open>The errors of a field's validation, empty when it succeeded.\<close>

fun errors_of :: "validation_error + 'a \<Rightarrow> validation_error" where
  "errors_of (Inl es) = es"
| "errors_of (Inr v) = []"

text \<open>A field of type \<open>str\<close>: only a string is accepted.\<close>

fun validate_str :: "location \<Rightarrow> pyval \<Rightarrow> validation_error + string" where
  "validate_str at (PStr s) = Inr s"
| "validate_str at v = Inl [at]"

text \<open>A field of type \<open>Optional[str]\<close>: \<open>None\<close> or a string.\<close>

fun validate_optional_str :: "location \<Rightarrow> pyval \<Rightarrow> validation_error + string option" where
  "validate_optional_str at PNone = Inr None"
| "validate_optional_str at (PStr s) = Inr (Some s)"
| "validate_optional_str at v = Inl [at]"

text \<open>
  A field of type \<open>List[str]\<close>, given the items of the list: every item is
  validated, the errors of all items are collected, the order of the items is kept.
\<close>

fun validate_str_items :: "location \<Rightarrow> nat \<Rightarrow> pyval list \<Rightarrow> validation_error + string list" where
  "validate_str_items at i [] = Inr []"
| "validate_str_items at i (v # vs) =
     (case (validate_str (at @ [Index i]) v, validate_str_items at (Suc i) vs) of
        (Inr s, Inr ss) \<Rightarrow> Inr (s # ss)
      | (r, rs) \<Rightarrow> Inl (errors_of r @ errors_of rs))"

text \<open>
  A field of type \<open>Optional[Union[str, List[str]]]\<close>. A value that no branch of
  the union accepts is reported once per branch, under the name of the branch: under
  \<open>str\<close> as not being a string, and under \<open>list[str]\<close> as not being a list or,
  for a list, at each item that is not a string.
\<close>

fun validate_patterns :: "location \<Rightarrow> pyval \<Rightarrow> validation_error + patterns option" where
  "validate_patterns at PNone = Inr None"
| "validate_patterns at (PStr s) = Inr (Some (Single s))"
| "validate_patterns at (PList vs) =
     (case validate_str_items (at @ [Field ''list[str]'']) 0 vs of
        Inr ps \<Rightarrow> Inr (Some (Many ps))
      | Inl es \<Rightarrow> Inl ((at @ [Field ''str'']) # es))"
| "validate_patterns at v = Inl [at @ [Field ''str''], at @ [Field ''list[str]'']]"

text \<open>
  \<open>ModelConfig\<close>: \<open>repo\<close> is required; \<open>ref\<close> defaults to \<open>"main"\<close>,
  \<open>include\<close> and \<open>exclude\<close> to \<open>None\<close>. A default is used when the key is
  absent; keys that are not fields are ignored.
\<close>

definition validate_ModelConfig :: "location \<Rightarrow> pyval \<Rightarrow> validation_error + ModelConfig" where
  "validate_ModelConfig at v =
     (case v of
        PDict kvs \<Rightarrow>
          (let r = (case map_of kvs ''repo'' of
                      None \<Rightarrow> Inl [at @ [Field ''repo'']]
                    | Some x \<Rightarrow> validate_str (at @ [Field ''repo'']) x);
               f = (case map_of kvs ''ref'' of
                      None \<Rightarrow> Inr (Some ''main'')
                    | Some x \<Rightarrow> validate_optional_str (at @ [Field ''ref'']) x);
               i = (case map_of kvs ''include'' of
                      None \<Rightarrow> Inr None
                    | Some x \<Rightarrow> validate_patterns (at @ [Field ''include'']) x);
               e = (case map_of kvs ''exclude'' of
                      None \<Rightarrow> Inr None
                    | Some x \<Rightarrow> validate_patterns (at @ [Field ''exclude'']) x)
           in case (r, f, i, e) of
                (Inr r', Inr f', Inr i', Inr e') \<Rightarrow>
                  Inr \<lparr>repo = r', ref = f', include_patterns = i', exclude_patterns = e'\<rparr>
              | _ \<Rightarrow> Inl (errors_of r @ errors_of f @ errors_of i @ errors_of e))
      | _ \<Rightarrow> Inl [at])"

text \<open>A field of type \<open>List[ModelConfig]\<close>, given the items of the list.\<close>

fun validate_ModelConfig_items ::
  "location \<Rightarrow> nat \<Rightarrow> pyval list \<Rightarrow> validation_error + ModelConfig list" where
  "validate_ModelConfig_items at i [] = Inr []"
| "validate_ModelConfig_items at i (v # vs) =
     (case (validate_ModelConfig (at @ [Index i]) v, validate_ModelConfig_items at (Suc i) vs) of
        (Inr m, Inr ms) \<Rightarrow> Inr (m # ms)
      | (r, rs) \<Rightarrow> Inl (errors_of r @ errors_of rs))"

text \<open>
  \<open>FacehuggerManifest.model_validate(data)\<close>: the document must be a dictionary
  with a key \<open>models\<close> holding a list of entries. The schema puts no bound on the
  length of the list.
\<close>

definition model_validate :: "pyval \<Rightarrow> validation_error + FacehuggerManifest" where
  "model_validate data =
     (case data of
        PDict kvs \<Rightarrow>
          (case map_of kvs ''models'' of
             None \<Rightarrow> Inl [[Field ''models'']]
           | Some (PList vs) \<Rightarrow>
               (case validate_ModelConfig_items [Field ''models''] 0 vs of
                  Inr ms \<Rightarrow> Inr \<lparr>models = ms\<rparr>
                | Inl es \<Rightarrow> Inl es)
           | Some v \<Rightarrow> Inl [[Field ''models'']])
      | _ \<Rightarrow> Inl [[]])"

section \<open>More string operations\<close>

text \<open>
  \<open>str.splitlines()\<close>. A line ends at \<open>\n\<close>, \<open>\r\<close>, \<open>\r\n\<close>, \<open>\v\<close>,
  \<open>\f\<close>, the separators \<open>\x1c\<close>, \<open>\x1d\<close>, \<open>\x1e\<close>, and at U+0085, U+2028 and
  U+2029, whose UTF-8 encodings are two and three bytes long. \<open>line_break_len s\<close> is
  the length of the line boundary at the head of \<open>s\<close>, or 0 when there is none.
\<close>

definition line_break_len :: "string \<Rightarrow> nat" where
  "line_break_len s =
     (case s of
        [] \<Rightarrow> 0
      | c # cs \<Rightarrow>
          if c = CHR 0x0D then (if take 1 cs = [CHR 0x0A] then 2 else 1)
          else if c \<in> set [CHR 0x0A, CHR 0x0B, CHR 0x0C, CHR 0x1C, CHR 0x1D, CHR 0x1E] then 1
          else if take 2 s = [CHR 0xC2, CHR 0x85] then 2
          else if take 3 s = [CHR 0xE2, CHR 0x80, CHR 0xA8] then 3
          else if take 3 s = [CHR 0xE2, CHR 0x80, CHR 0xA9] then 3
          else 0)"

text \<open>
  \<open>splitlines_from cur s\<close>: the lines of \<open>s\<close>, the first one prefixed by the
  characters \<open>cur\<close> read so far. The text after the last boundary is a line only
  when it is not empty.
\<close>

function splitlines_from :: "string \<Rightarrow> string \<Rightarrow> string list" where
  "splitlines_from cur s =
     (if s = [] then (if cur = [] then [] else [cur])
      else if line_break_len s = 0 then splitlines_from (cur @ [hd s]) (tl s)
      else cur # splitlines_from [] (drop (line_break_len s) s))"
  by pat_completeness auto
termination
  by (relation "measure (\<lambda>(cur, s). length s)") auto

definition splitlines :: "string \<Rightarrow> string list" where
  "splitlines s = splitlines_from [] s"

text \<open>\<open>line.startswith(p)\<close>.\<close>

definition startswith :: "string \<Rightarrow> string \<Rightarrow> bool" where
  "startswith line p = (take (length p) line = p)"

text \<open>\<open>str(n)\<close> for an integer: its decimal numeral.\<close>

fun str_nat :: "nat \<Rightarrow> string" where
  "str_nat n =
     (if n < 10 then [''0123456789'' ! n]
      else str_nat (n div 10) @ [''0123456789'' ! (n mod 10)])"

definition str_int :: "int \<Rightarrow> string" where
  "str_int i = (if i < 0 then ''-'' @ str_nat (nat (- i)) else str_nat (nat i))"

text \<open>\<open>str(x)\<close> for an optional string: \<open>None\<close> prints as \<open>None\<close>.\<close>

fun str_optional :: "string option \<Rightarrow> string" where
  "str_optional None = ''None''"
| "str_optional (Some s) = s"

section \<open>The line diff (difflib.unified\_diff)\<close>

text \<open>
  The entry point diffs the two listings with \<open>difflib.unified_diff\<close> of the Python
  standard library. The model follows the module as CPython 3.11 has it: class
  \<open>SequenceMatcher\<close> with no junk function and with the automatic junk heuristic
  (\<open>isjunk=None\<close>, \<open>autojunk=True\<close>), and \<open>unified_diff\<close> with its defaults
  (\<open>n=3\<close>, no file dates). Indices are natural numbers; where Python computes a
  difference that could be negative, the text says why truncation gives the same.

  A matching block \<open>(i, j, k)\<close> says \<open>a[i:i+k] == b[j:j+k]\<close>; an opcode is
  \<open>(tag, i1, i2, j1, j2)\<close>.
\<close>

type_synonym match = "nat \<times> nat \<times> nat"

datatype tag = Replace | Delete | Insert | Equal

type_synonym opcode = "tag \<times> nat \<times> nat \<times> nat \<times> nat"

text \<open>
  \<open>__chain_b\<close>. The loop \<open>for i, elt in enumerate(b)\<close> appends \<open>i\<close> to the
  list \<open>b2j[elt]\<close>, so every list is increasing. No element is junk. When \<open>b\<close> has
  200 elements or more, the elements that occur more than \<open>n // 100 + 1\<close> times are
  popular and are deleted from \<open>b2j\<close>.
\<close>

fun chain_b_loop :: "'a list \<Rightarrow> nat \<Rightarrow> ('a \<rightharpoonup> nat list) \<Rightarrow> ('a \<rightharpoonup> nat list)" where
  "chain_b_loop [] i b2j = b2j"
| "chain_b_loop (elt # rest) i b2j =
     chain_b_loop rest (Suc i)
       (b2j(elt \<mapsto> (case b2j elt of None \<Rightarrow> [] | Some indices \<Rightarrow> indices) @ [i]))"

definition chain_b :: "'a list \<Rightarrow> ('a \<rightharpoonup> nat list)" where
  "chain_b b =
     (let b2j = chain_b_loop b 0 Map.empty;
          n = length b
      in if n \<ge> 200 then
           (let ntest = n div 100 + 1
            in (\<lambda>elt. case b2j elt of
                        None \<Rightarrow> None
                      | Some idxs \<Rightarrow> if length idxs > ntest then None else Some idxs))
         else b2j)"

text \<open>
  \<open>self.bjunk.__contains__\<close>: the set of junk elements is empty.
\<close>

definition isbjunk :: "'a \<Rightarrow> bool" where
  "isbjunk elt = False"

text \<open>
  \<open>find_longest_match\<close>, its inner loop \<open>for j in b2j.get(a[i], nothing)\<close> with
  its \<open>continue\<close> and \<open>break\<close>. The state is \<open>newj2len\<close> and the best block so
  far. \<open>j2len.get(j-1, 0)\<close> is 0 for \<open>j = 0\<close>, as \<open>-1\<close> is never a key. The block
  found is \<open>(i-k+1, j-k+1, k)\<close>, where \<open>k\<close> is at most \<open>i+1\<close> and \<open>j+1\<close>.
\<close>

fun flm_inner ::
  "nat \<Rightarrow> nat \<Rightarrow> nat \<Rightarrow> (nat \<rightharpoonup> nat) \<Rightarrow> nat list
   \<Rightarrow> (nat \<rightharpoonup> nat) \<times> match \<Rightarrow> (nat \<rightharpoonup> nat) \<times> match" where
  "flm_inner i blo bhi j2len [] st = st"
| "flm_inner i blo bhi j2len (j # js) (newj2len, besti, bestj, bestsize) =
     (if j < blo then flm_inner i blo bhi j2len js (newj2len, besti, bestj, bestsize)
      else if j \<ge> bhi then (newj2len, besti, bestj, bestsize)
      else
        (let k = (if j = 0 then 0 else (case j2len (j - 1) of None \<Rightarrow> 0 | Some v \<Rightarrow> v)) + 1
         in if k > bestsize
            then flm_inner i blo bhi j2len js (newj2len(j \<mapsto> k), Suc i - k, Suc j - k, k)
            else flm_inner i blo bhi j2len js (newj2len(j \<mapsto> k), besti, bestj, bestsize)))"

text \<open>
  The outer loop \<open>for i in range(alo, ahi)\<close>, given the list of its indices; each
  round starts from an empty \<open>newj2len\<close> and leaves it as the next \<open>j2len\<close>.
\<close>

fun flm_outer ::
  "'a list \<Rightarrow> ('a \<rightharpoonup> nat list) \<Rightarrow> nat \<Rightarrow> nat \<Rightarrow> nat list
   \<Rightarrow> (nat \<rightharpoonup> nat) \<times> match \<Rightarrow> (nat \<rightharpoonup> nat) \<times> match" where
  "flm_outer a b2j blo bhi [] st = st"
| "flm_outer a b2j blo bhi (i # is) (j2len, best) =
     flm_outer a b2j blo bhi is
       (flm_inner i blo bhi j2len (case b2j (a ! i) of None \<Rightarrow> [] | Some js \<Rightarrow> js)
          (Map.empty, best))"

text \<open>
  The loops that extend the block, backwards and forwards, over the elements that
  satisfy \<open>P\<close>: first with \<open>P\<close> the elements that are not junk, then with \<open>P\<close>
  the junk elements. The guards keep every index read inside the two sequences.
\<close>

function extend_back ::
  "('a \<Rightarrow> bool) \<Rightarrow> 'a list \<Rightarrow> 'a list \<Rightarrow> nat \<Rightarrow> nat \<Rightarrow> match \<Rightarrow> match" where
  "extend_back P a b alo blo (besti, bestj, bestsize) =
     (if besti > alo \<and> bestj > blo \<and> P (b ! (bestj - 1)) \<and> a ! (besti - 1) = b ! (bestj - 1)
      then extend_back P a b alo blo (besti - 1, bestj - 1, bestsize + 1)
      else (besti, bestj, bestsize))"
  by pat_completeness auto
termination
  by (relation "measure (\<lambda>(P, a, b, alo, blo, besti, bestj, bestsize). besti)") auto

function extend_forward ::
  "('a \<Rightarrow> bool) \<Rightarrow> 'a list \<Rightarrow> 'a list \<Rightarrow> nat \<Rightarrow> nat \<Rightarrow> match \<Rightarrow> match" where
  "extend_forward P a b ahi bhi (besti, bestj, bestsize) =
     (if besti + bestsize < ahi \<and> bestj + bestsize < bhi \<and> P (b ! (bestj + bestsize))
         \<and> a ! (besti + bestsize) = b ! (bestj + bestsize)
      then extend_forward P a b ahi bhi (besti, bestj, bestsize + 1)
      else (besti, bestj, bestsize))"
  by pat_completeness auto
termination
  by (relation "measure (\<lambda>(P, a, b, ahi, bhi, besti, bestj, bestsize). ahi - (besti + bestsize))")
     auto

declare extend_back.simps [simp del]
declare extend_forward.simps [simp del]

text \<open>
  \<open>find_longest_match(alo, ahi, blo, bhi)\<close>, with \<open>b2j\<close> as computed for \<open>b\<close>.
\<close>

definition find_longest_match ::
  "'a list \<Rightarrow> 'a list \<Rightarrow> ('a \<rightharpoonup> nat list) \<Rightarrow> nat \<Rightarrow> nat \<Rightarrow> nat \<Rightarrow> nat \<Rightarrow> match" where
  "find_longest_match a b b2j alo ahi blo bhi =
     (let best = snd (flm_outer a b2j blo bhi [alo..<ahi] (Map.empty, alo, blo, 0));
          best = extend_back (\<lambda>elt. \<not> isbjunk elt) a b alo blo best;
          best = extend_forward (\<lambda>elt. \<not> isbjunk elt) a b ahi bhi best;
          best = extend_back isbjunk a b alo blo best;
          best = extend_forward isbjunk a b ahi bhi best
      in best)"

text \<open>
  The block that \<open>find_longest_match\<close> returns lies inside the two ranges; this is
  what makes the loop of \<open>get_matching_blocks\<close> end. The invariant of the loops:
  a block of size 0 is still the initial one, a block of another size lies inside the
  ranges, and the lengths in \<open>j2len\<close> are bounded by the row and the column.
\<close>

definition flm_ok :: "nat \<Rightarrow> nat \<Rightarrow> nat \<Rightarrow> nat \<Rightarrow> match \<Rightarrow> bool" where
  "flm_ok alo ahi blo bhi m =
     (case m of (i, j, k) \<Rightarrow>
        alo \<le> i \<and> blo \<le> j
        \<and> (if k = 0 then i = alo \<and> j = blo else i + k \<le> ahi \<and> j + k \<le> bhi))"

definition j2len_ok :: "nat \<Rightarrow> nat \<Rightarrow> nat \<Rightarrow> (nat \<rightharpoonup> nat) \<Rightarrow> bool" where
  "j2len_ok alo blo i j2len =
     (\<forall>j v. j2len j = Some v \<longrightarrow> blo \<le> j \<and> v \<le> Suc j - blo \<and> v + alo \<le> i)"

lemma flm_inner_ok:
  assumes "alo \<le> i" and "i < ahi" and "j2len_ok alo blo i j2len"
  shows "j2len_ok alo blo (Suc i) newj2len \<Longrightarrow> flm_ok alo ahi blo bhi best \<Longrightarrow>
         j2len_ok alo blo (Suc i) (fst (flm_inner i blo bhi j2len js (newj2len, best)))
         \<and> flm_ok alo ahi blo bhi (snd (flm_inner i blo bhi j2len js (newj2len, best)))"
proof (induction js arbitrary: newj2len best)
  case Nil
  then show ?case by simp
next
  case (Cons j js)
  obtain besti bestj bestsize where best: "best = (besti, bestj, bestsize)"
    by (cases best)
  show ?case
  proof (cases "j < blo \<or> bhi \<le> j")
    case True
    with Cons best show ?thesis by auto
  next
    case False
    from False have jb: "blo \<le> j" "j < bhi" by simp_all
    define k where "k = (if j = 0 then 0 else (case j2len (j - 1) of None \<Rightarrow> 0 | Some v \<Rightarrow> v)) + 1"
    have k3: "0 < k" by (simp add: k_def)
    have k12: "k \<le> Suc j - blo \<and> k + alo \<le> Suc i"
    proof (cases "j = 0")
      case True
      with jb assms(1) show ?thesis by (simp add: k_def)
    next
      case j: False
      show ?thesis
      proof (cases "j2len (j - 1)")
        case None
        with j jb assms(1) show ?thesis by (simp add: k_def)
      next
        case (Some v)
        with assms(3) have "blo \<le> j - 1 \<and> v \<le> Suc (j - 1) - blo \<and> v + alo \<le> i"
          unfolding j2len_ok_def by blast
        with j Some show ?thesis by (auto simp: k_def)
      qed
    qed
    then have k1: "k \<le> Suc j - blo" and k2: "k + alo \<le> Suc i" by simp_all
    have new: "j2len_ok alo blo (Suc i) (newj2len(j \<mapsto> k))"
      using Cons.prems(1) k1 k2 jb unfolding j2len_ok_def by auto
    have upd: "flm_ok alo ahi blo bhi (Suc i - k, Suc j - k, k)"
      using k1 k2 k3 jb assms(2) unfolding flm_ok_def by auto
    show ?thesis
    proof (cases "k > bestsize")
      case True
      from jb True
      have step: "flm_inner i blo bhi j2len (j # js) (newj2len, besti, bestj, bestsize)
                  = flm_inner i blo bhi j2len js (newj2len(j \<mapsto> k), Suc i - k, Suc j - k, k)"
        by (simp add: k_def Let_def)
      from Cons.IH [OF new upd] show ?thesis
        unfolding best step .
    next
      case nb: False
      from jb nb
      have step: "flm_inner i blo bhi j2len (j # js) (newj2len, besti, bestj, bestsize)
                  = flm_inner i blo bhi j2len js (newj2len(j \<mapsto> k), besti, bestj, bestsize)"
        by (simp add: k_def Let_def)
      from Cons.IH [OF new Cons.prems(2)] show ?thesis
        unfolding best step .
    qed
  qed
qed

lemma j2len_ok_empty: "j2len_ok alo blo i Map.empty"
  by (simp add: j2len_ok_def)

lemma flm_outer_ok:
  "alo \<le> m \<Longrightarrow> j2len_ok alo blo m j2len \<Longrightarrow> flm_ok alo ahi blo bhi best \<Longrightarrow>
   flm_ok alo ahi blo bhi (snd (flm_outer a b2j blo bhi [m..<ahi] (j2len, best)))"
proof (induction "ahi - m" arbitrary: m j2len best)
  case 0
  then show ?case by simp
next
  case (Suc n)
  then have lt: "m < ahi" by simp
  let ?st = "flm_inner m blo bhi j2len (case b2j (a ! m) of None \<Rightarrow> [] | Some js \<Rightarrow> js)
               (Map.empty, best)"
  from flm_inner_ok [OF Suc.prems(1) lt Suc.prems(2) j2len_ok_empty Suc.prems(3)]
  have ok: "j2len_ok alo blo (Suc m) (fst ?st)" "flm_ok alo ahi blo bhi (snd ?st)"
    by blast+
  have "n = ahi - Suc m" using Suc.hyps(2) by simp
  from Suc.hyps(1) [OF this _ ok] Suc.prems(1)
  have "flm_ok alo ahi blo bhi (snd (flm_outer a b2j blo bhi [Suc m..<ahi] (fst ?st, snd ?st)))"
    by simp
  then show ?case
    using lt by (simp add: upt_conv_Cons)
qed

lemma extend_back_ok:
  "flm_ok alo ahi blo bhi best \<Longrightarrow> flm_ok alo ahi blo bhi (extend_back P a b alo blo best)"
proof (induction P a b alo blo best rule: extend_back.induct)
  case (1 P a b alo blo besti bestj bestsize)
  show ?case
  proof (cases "besti > alo \<and> bestj > blo \<and> P (b ! (bestj - 1))
                 \<and> a ! (besti - 1) = b ! (bestj - 1)")
    case True
    from "1.prems" True have "flm_ok alo ahi blo bhi (besti - 1, bestj - 1, bestsize + 1)"
      unfolding flm_ok_def by (auto split: if_splits)
    from "1.IH" [OF True this] show ?thesis
      by (subst extend_back.simps) (simp only: if_P [OF True])
  next
    case False
    from "1.prems" show ?thesis
      by (subst extend_back.simps) (simp only: if_not_P [OF False])
  qed
qed

lemma extend_forward_ok:
  "flm_ok alo ahi blo bhi best \<Longrightarrow> flm_ok alo ahi blo bhi (extend_forward P a b ahi bhi best)"
proof (induction P a b ahi bhi best rule: extend_forward.induct)
  case (1 P a b ahi bhi besti bestj bestsize)
  show ?case
  proof (cases "besti + bestsize < ahi \<and> bestj + bestsize < bhi \<and> P (b ! (bestj + bestsize))
                 \<and> a ! (besti + bestsize) = b ! (bestj + bestsize)")
    case True
    from "1.prems" True have "flm_ok alo ahi blo bhi (besti, bestj, bestsize + 1)"
      unfolding flm_ok_def by (auto split: if_splits)
    from "1.IH" [OF True this] show ?thesis
      by (subst extend_forward.simps) (simp only: if_P [OF True])
  next
    case False
    from "1.prems" show ?thesis
      by (subst extend_forward.simps) (simp only: if_not_P [OF False])
  qed
qed

lemma find_longest_match_ok:
  "flm_ok alo ahi blo bhi (find_longest_match a b b2j alo ahi blo bhi)"
proof -
  have "flm_ok alo ahi blo bhi (alo, blo, 0)" by (simp add: flm_ok_def)
  from flm_outer_ok [OF le_refl j2len_ok_empty this]
  show ?thesis
    unfolding find_longest_match_def Let_def
    by (intro extend_forward_ok extend_back_ok)
qed

lemma find_longest_match_bounds:
  assumes "find_longest_match a b b2j alo ahi blo bhi = (i, j, k)" and "k \<noteq> 0"
  shows "alo \<le> i \<and> i + k \<le> ahi \<and> blo \<le> j \<and> j + k \<le> bhi"
  using find_longest_match_ok [of alo ahi blo bhi a b b2j] assms
  by (simp add: flm_ok_def)

text \<open>
  \<open>get_matching_blocks\<close>, its loop \<open>while queue\<close>. The queue is used as a stack
  (\<open>queue.pop()\<close> takes the last element); here the head of the list is the top, so the
  two pushes appear in reverse order.
\<close>

function mb_loop ::
  "'a list \<Rightarrow> 'a list \<Rightarrow> ('a \<rightharpoonup> nat list) \<Rightarrow> (nat \<times> nat \<times> nat \<times> nat) list
   \<Rightarrow> match list \<Rightarrow> match list" where
  "mb_loop a b b2j [] matching_blocks = matching_blocks"
| "mb_loop a b b2j ((alo, ahi, blo, bhi) # queue) matching_blocks =
     (case find_longest_match a b b2j alo ahi blo bhi of
        (i, j, k) \<Rightarrow>
          if k \<noteq> 0 then
            mb_loop a b b2j
              ((if i + k < ahi \<and> j + k < bhi then [(i + k, ahi, j + k, bhi)] else [])
               @ (if alo < i \<and> blo < j then [(alo, i, blo, j)] else [])
               @ queue)
              (matching_blocks @ [(i, j, k)])
          else mb_loop a b b2j queue matching_blocks)"
  by pat_completeness auto
termination
proof (relation "measure (\<lambda>(a, b, b2j, queue, matching_blocks).
                   sum_list (map (\<lambda>(alo, ahi, blo, bhi). 2 * (ahi - alo) + 1) queue))",
       goal_cases)
  case 1
  show ?case by simp
next
  case (2 a b b2j alo ahi blo bhi queue matching_blocks i jk j k)
  then have "find_longest_match a b b2j alo ahi blo bhi = (i, j, k)" by simp
  from find_longest_match_bounds [OF this \<open>k \<noteq> 0\<close>] \<open>k \<noteq> 0\<close>
  have bounds: "alo \<le> i" "i + k \<le> ahi" "0 < k" by simp_all
  have left: "(\<Sum>(alo, ahi, blo, bhi)\<leftarrow>(if alo < i \<and> blo < j then [(alo, i, blo, j)] else []).
                 2 * (ahi - alo) + 1) \<le> 2 * (i - alo) + 1"
    by simp
  have right: "(\<Sum>(alo, ahi, blo, bhi)\<leftarrow>(if i + k < ahi \<and> j + k < bhi
                 then [(i + k, ahi, j + k, bhi)] else []). 2 * (ahi - alo) + 1)
               \<le> 2 * (ahi - (i + k)) + 1"
    by simp
  have "2 * (i - alo) + 1 + (2 * (ahi - (i + k)) + 1) < 2 * (ahi - alo) + 1"
    using bounds by linarith
  with left right show ?case
    unfolding in_measure prod.case map_append sum_list_append list.map sum_list.Cons
    by linarith
next
  case 3
  then show ?case by simp
qed

declare mb_loop.simps [simp del]

text \<open>
  \<open>matching_blocks.sort()\<close>: triples are compared lexicographically.
\<close>

definition match_le :: "match \<Rightarrow> match \<Rightarrow> bool" where
  "match_le x y =
     (case x of (i1, j1, k1) \<Rightarrow> case y of (i2, j2, k2) \<Rightarrow>
        i1 < i2 \<or> (i1 = i2 \<and> (j1 < j2 \<or> (j1 = j2 \<and> k1 \<le> k2))))"

fun insert_match :: "match \<Rightarrow> match list \<Rightarrow> match list" where
  "insert_match x [] = [x]"
| "insert_match x (y # ys) = (if match_le x y then x # y # ys else y # insert_match x ys)"

definition sort_matches :: "match list \<Rightarrow> match list" where
  "sort_matches xs = foldr insert_match xs []"

text \<open>
  The loop that collapses adjacent blocks, with the block \<open>(i1, j1, k1)\<close> to compare
  against and the list \<open>non_adjacent\<close>; then the blocks, with the sentinel
  \<open>(la, lb, 0)\<close> at the end.
\<close>

fun collapse_adjacent :: "match list \<Rightarrow> match \<Rightarrow> match list \<Rightarrow> match \<times> match list" where
  "collapse_adjacent [] cur non_adjacent = (cur, non_adjacent)"
| "collapse_adjacent ((i2, j2, k2) # rest) (i1, j1, k1) non_adjacent =
     (if i1 + k1 = i2 \<and> j1 + k1 = j2
      then collapse_adjacent rest (i1, j1, k1 + k2) non_adjacent
      else collapse_adjacent rest (i2, j2, k2)
             (if k1 \<noteq> 0 then non_adjacent @ [(i1, j1, k1)] else non_adjacent))"

definition get_matching_blocks :: "'a list \<Rightarrow> 'a list \<Rightarrow> match list" where
  "get_matching_blocks a b =
     (let la = length a; lb = length b;
          matching_blocks = sort_matches (mb_loop a b (chain_b b) [(0, la, 0, lb)] [])
      in case collapse_adjacent matching_blocks (0, 0, 0) [] of
           ((i1, j1, k1), non_adjacent) \<Rightarrow>
             (if k1 \<noteq> 0 then non_adjacent @ [(i1, j1, k1)] else non_adjacent) @ [(la, lb, 0)])"

text \<open>
  \<open>get_opcodes\<close>: the loop over the matching blocks, with the positions \<open>i\<close>,
  \<open>j\<close> reached and the answer so far.
\<close>

fun opcodes_loop :: "match list \<Rightarrow> nat \<Rightarrow> nat \<Rightarrow> opcode list \<Rightarrow> opcode list" where
  "opcodes_loop [] i j answer = answer"
| "opcodes_loop ((ai, bj, sz) # rest) i j answer =
     (let answer = (if i < ai \<and> j < bj then answer @ [(Replace, i, ai, j, bj)]
                    else if i < ai then answer @ [(Delete, i, ai, j, bj)]
                    else if j < bj then answer @ [(Insert, i, ai, j, bj)]
                    else answer);
          answer = (if sz \<noteq> 0 then answer @ [(Equal, ai, ai + sz, bj, bj + sz)]
                    else answer)
      in opcodes_loop rest (ai + sz) (bj + sz) answer)"

definition get_opcodes :: "'a list \<Rightarrow> 'a list \<Rightarrow> opcode list" where
  "get_opcodes a b = opcodes_loop (get_matching_blocks a b) 0 0 []"

text \<open>
  \<open>get_grouped_opcodes(n)\<close>: the loop over the opcodes, with the current group and
  the groups already yielded. \<open>max(i1, i2-n)\<close> is the same with truncating
  subtraction, \<open>i1\<close> not being negative; \<open>i2-i1\<close> is not negative in an opcode.
\<close>

fun groups_loop ::
  "nat \<Rightarrow> opcode list \<Rightarrow> opcode list \<Rightarrow> opcode list list \<Rightarrow> opcode list \<times> opcode list list" where
  "groups_loop n [] grp groups = (grp, groups)"
| "groups_loop n ((tag, i1, i2, j1, j2) # codes) grp groups =
     (if tag = Equal \<and> i2 - i1 > n + n
      then groups_loop n codes [(tag, max i1 (i2 - n), i2, max j1 (j2 - n), j2)]
             (groups @ [grp @ [(tag, i1, min i2 (i1 + n), j1, min j2 (j1 + n))]])
      else groups_loop n codes (grp @ [(tag, i1, i2, j1, j2)]) groups)"

text \<open>
  An empty list of opcodes is replaced by one empty-looking \<open>equal\<close> opcode; the
  first and the last opcode are trimmed to \<open>n\<close> lines of context when they are
  \<open>equal\<close>; a last group is yielded unless it is empty or a single \<open>equal\<close>.
\<close>

definition get_grouped_opcodes :: "'a list \<Rightarrow> 'a list \<Rightarrow> nat \<Rightarrow> opcode list list" where
  "get_grouped_opcodes a b n =
     (let codes = get_opcodes a b;
          codes = (if codes = [] then [(Equal, 0, 1, 0, 1)] else codes);
          codes = (case codes ! 0 of (tag, i1, i2, j1, j2) \<Rightarrow>
                     if tag = Equal
                     then codes[0 := (tag, max i1 (i2 - n), i2, max j1 (j2 - n), j2)]
                     else codes);
          codes = (case codes ! (length codes - 1) of (tag, i1, i2, j1, j2) \<Rightarrow>
                     if tag = Equal
                     then codes[length codes - 1 := (tag, i1, min i2 (i1 + n), j1, min j2 (j1 + n))]
                     else codes)
      in case groups_loop n codes [] [] of
           (grp, groups) \<Rightarrow>
             if grp \<noteq> [] \<and> \<not> (length grp = 1 \<and> fst (grp ! 0) = Equal)
             then groups @ [grp] else groups)"

text \<open>
  \<open>_format_range_unified(start, stop)\<close>.
\<close>

definition format_range_unified :: "nat \<Rightarrow> nat \<Rightarrow> string" where
  "format_range_unified start stop =
     (let beginning = start + 1;
          len = stop - start
      in if len = 1 then str_nat beginning
         else str_nat (if len = 0 then beginning - 1 else beginning) @ '','' @ str_nat len)"

text \<open>
  The slice \<open>xs[i1:i2]\<close>.
\<close>

definition slice :: "'a list \<Rightarrow> nat \<Rightarrow> nat \<Rightarrow> 'a list" where
  "slice xs i1 i2 = drop i1 (take i2 xs)"

text \<open>
  \<open>unified_diff\<close>: the lines of one opcode, the lines of the groups (the two header
  lines come before the first group), and the function itself, a generator whose
  lines are collected in a list.
\<close>

fun opcode_lines :: "string list \<Rightarrow> string list \<Rightarrow> opcode \<Rightarrow> string list" where
  "opcode_lines a b (tag, i1, i2, j1, j2) =
     (if tag = Equal then map (\<lambda>line. '' '' @ line) (slice a i1 i2)
      else (if tag = Replace \<or> tag = Delete then map (\<lambda>line. ''-'' @ line) (slice a i1 i2)
            else [])
         @ (if tag = Replace \<or> tag = Insert then map (\<lambda>line. ''+'' @ line) (slice b j1 j2)
            else []))"

fun diff_groups ::
  "string list \<Rightarrow> string list \<Rightarrow> string \<Rightarrow> string \<Rightarrow> string \<Rightarrow> bool \<Rightarrow> opcode list list
   \<Rightarrow> string list" where
  "diff_groups a b fromfile tofile lineterm started [] = []"
| "diff_groups a b fromfile tofile lineterm started (grp # groups) =
     (if \<not> started
      then [''--- '' @ fromfile @ lineterm, ''+++ '' @ tofile @ lineterm]
      else [])
     @ (case (grp ! 0, grp ! (length grp - 1)) of
          ((tag1, f1, f2, f3, f4), (tag2, l1, l2, l3, l4)) \<Rightarrow>
            [''@@ -'' @ format_range_unified f1 l2 @ '' +'' @ format_range_unified f3 l4
             @ '' @@'' @ lineterm])
     @ concat (map (opcode_lines a b) grp)
     @ diff_groups a b fromfile tofile lineterm True groups"

definition difflib_unified_diff ::
  "string list \<Rightarrow> string list \<Rightarrow> string \<Rightarrow> string \<Rightarrow> string \<Rightarrow> string list" where
  "difflib_unified_diff a b fromfile tofile lineterm =
     diff_groups a b fromfile tofile lineterm False (get_grouped_opcodes a b 3)"

section \<open>Effects and the environment\<close>

text \<open>
  Every effect of the program on the outside is an event of its trace, in the order
  the effects happen: \<open>print\<close>, the calls of \<open>logging\<close> (the message and its
  \<open>%s\<close> arguments as they are passed), the file system calls of the loader, the
  subprocess, and the two calls of the hub client.
\<close>

datatype level = INFO | WARNING | ERROR

datatype log_arg = ArgStr string | ArgInt int | ArgPath string | ArgEntry ModelConfig

datatype event =
    Print string
  | BasicConfig level string
  | Log level string "log_arg list"
  | IsFile string
  | OpenRead string
  | SubprocessRun "string list"
  | SnapshotDownload string "string option" "patterns option" "patterns option"
  | VerifyRepoChecksums string "string option" "string option"

text \<open>The exceptions that occur: raised by the program or by a library it calls.\<close>

datatype exn =
    SystemExit string
  | CalledProcessError int
  | RepositoryNotFoundError string
  | RevisionNotFoundError string
  | FileNotFoundError string
  | UnicodeDecodeError string
  | OtherError string

text \<open>\<open>str(exc)\<close> for the exceptions of the hub client, which carry their message.\<close>

fun str_exn :: "exn \<Rightarrow> string" where
  "str_exn (SystemExit m) = m"
| "str_exn (CalledProcessError rc) = []"
| "str_exn (RepositoryNotFoundError m) = m"
| "str_exn (RevisionNotFoundError m) = m"
| "str_exn (FileNotFoundError m) = m"
| "str_exn (UnicodeDecodeError m) = m"
| "str_exn (OtherError m) = m"

text \<open>
  The exit status of the process: 0 when \<open>main\<close> returns, 1 when it ends with
  \<open>sys.exit(message)\<close> or with an exception nobody caught.
\<close>

fun exit_code :: "exn + unit \<Rightarrow> int" where
  "exit_code (Inr u) = 0"
| "exit_code (Inl e) = 1"

text \<open>The result of \<open>verify_repo_checksums\<close>.\<close>

record mismatch =
  path :: string
  expected :: string
  actual :: string
  algorithm :: string

record verification =
  checked_count :: int
  verified_path :: string
  mismatches :: "mismatch list"

text \<open>
  What the program is given from outside. The libraries and the operating system are
  parameters: the installed package version (\<open>None\<close> when the package is not found),
  the regular files and their text, the YAML parser (\<open>Inl\<close> the text of a
  \<open>YAMLError\<close>), \<open>str\<close> of a path and of a \<open>ValidationError\<close>, the directory of
  the interpreter and the process environment, \<open>difflib.unified_diff\<close> (its
  arguments \<open>a\<close>, \<open>b\<close>, \<open>fromfile\<close>, \<open>tofile\<close>, \<open>lineterm\<close>), and, over a state
  \<open>'w\<close> of the outside world that they change, the two operations of the hub client
  and the running of a command, for an argument list and an environment: either the
  command cannot be started, which is an exception (\<open>FileNotFoundError\<close> when there
  is no such program), or it runs to its end and gives its exit code and the bytes it
  wrote to its standard output and to its standard error. \<open>decode_text\<close> decodes
  bytes in the encoding of the locale, \<open>None\<close> when they cannot be decoded.
\<close>

record 'w system =
  pkg_version :: "string option"
  files :: "string \<rightharpoonup> string"
  yaml_safe_load :: "string \<Rightarrow> string + pyval"
  str_path :: "string \<Rightarrow> string"
  str_ValidationError :: "validation_error \<Rightarrow> string"
  venv_bin :: string
  os_environ :: "string \<rightharpoonup> string"
  unified_diff :: "string list \<Rightarrow> string list \<Rightarrow> string \<Rightarrow> string \<Rightarrow> string \<Rightarrow> string list"
  run_process ::
    "string list \<Rightarrow> (string \<rightharpoonup> string) \<Rightarrow> 'w \<Rightarrow> (exn + int \<times> string \<times> string) \<times> 'w"
  decode_text :: "string \<Rightarrow> string option"
  snapshot_download ::
    "string \<Rightarrow> string option \<Rightarrow> patterns option \<Rightarrow> patterns option \<Rightarrow> 'w \<Rightarrow> exn option \<times> 'w"
  verify_repo_checksums ::
    "string \<Rightarrow> string option \<Rightarrow> string option \<Rightarrow> 'w \<Rightarrow> (exn + verification) \<times> 'w"

section \<open>The manifest loader (load\_manifest)\<close>

text \<open>
  The loader ends the process with \<open>sys.exit(message)\<close> when the path is not a
  file, when the parser fails, and when the document fails validation. A document
  that is false (an empty file gives \<open>None\<close>) is replaced by the empty dictionary.
\<close>

definition load_manifest ::
  "'w system \<Rightarrow> string \<Rightarrow> (exn + FacehuggerManifest) \<times> event list" where
  "load_manifest sys file_path =
     (case files sys file_path of
        None \<Rightarrow>
          (Inl (SystemExit (''Manifest file not found: '' @ str_path sys file_path)),
           [IsFile file_path])
      | Some text \<Rightarrow>
          (case yaml_safe_load sys text of
             Inl exc \<Rightarrow>
               (Inl (SystemExit (''Failed to parse manifest file '' @ str_path sys file_path
                                  @ '': '' @ exc)),
                [IsFile file_path, OpenRead file_path])
           | Inr doc \<Rightarrow>
               (let data = (if truthy doc then doc else PDict [])
                in case model_validate data of
                     Inl exc \<Rightarrow>
                       (Inl (SystemExit (''Facehugger manifest '' @ str_path sys file_path
                                          @ '' failed validation: ''
                                          @ str_ValidationError sys exc)),
                        [IsFile file_path, OpenRead file_path])
                   | Inr manifest \<Rightarrow>
                       (Inr manifest, [IsFile file_path, OpenRead file_path]))))"

section \<open>The cache inspector (get\_hf\_env, get\_cache\_listing)\<close>

text \<open>
  The environment of the subprocess: the interpreter's directory is put in front of
  \<open>PATH\<close>, or becomes \<open>PATH\<close> when it is unset or empty.
\<close>

definition get_hf_env :: "'w system \<Rightarrow> (string \<rightharpoonup> string)" where
  "get_hf_env sys =
     (let env = os_environ sys;
          current_path = (case env ''PATH'' of None \<Rightarrow> [] | Some p \<Rightarrow> p)
      in if current_path \<noteq> []
         then env(''PATH'' \<mapsto> venv_bin sys @ '':'' @ current_path)
         else env(''PATH'' \<mapsto> venv_bin sys))"

text \<open>
  What \<open>text=True\<close> makes of a captured stream: the bytes are decoded, then
  \<open>\r\n\<close> and \<open>\r\<close> are replaced by \<open>\n\<close>.
\<close>

fun translate_newlines :: "string \<Rightarrow> string" where
  "translate_newlines [] = []"
| "translate_newlines [c] = (if c = CHR 0x0D then [CHR 0x0A] else [c])"
| "translate_newlines (c # d # cs) =
     (if c = CHR 0x0D \<and> d = CHR 0x0A then CHR 0x0A # translate_newlines cs
      else if c = CHR 0x0D then CHR 0x0A # translate_newlines (d # cs)
      else c # translate_newlines (d # cs))"

definition text_mode :: "'w system \<Rightarrow> string \<Rightarrow> string option" where
  "text_mode sys bytes = map_option translate_newlines (decode_text sys bytes)"

text \<open>
  \<open>subprocess.run(argv, check=True, text=True, capture_output=True, env=env)\<close>, as
  far as its standard output. An exception of the start propagates. Both streams are
  turned into text when the process has ended, the standard output first, and a
  stream that cannot be decoded raises \<open>UnicodeDecodeError\<close> whatever the exit code
  is. Only then \<open>check\<close> raises \<open>CalledProcessError\<close> for an exit code that is
  not 0.
\<close>

definition subprocess_run ::
  "'w system \<Rightarrow> string list \<Rightarrow> (string \<rightharpoonup> string) \<Rightarrow> 'w \<Rightarrow> (exn + string) \<times> 'w" where
  "subprocess_run sys argv env w =
     (case run_process sys argv env w of
        (Inl exc, w') \<Rightarrow> (Inl exc, w')
      | (Inr (returncode, out, err), w') \<Rightarrow>
          (case text_mode sys out of
             None \<Rightarrow> (Inl (UnicodeDecodeError out), w')
           | Some stdout \<Rightarrow>
               (case text_mode sys err of
                  None \<Rightarrow> (Inl (UnicodeDecodeError err), w')
                | Some stderr \<Rightarrow>
                    if returncode \<noteq> 0 then (Inl (CalledProcessError returncode), w')
                    else (Inr stdout, w'))))"

text \<open>
  The listing. The function catches \<open>CalledProcessError\<close>, logs an error and
  returns the empty list; when the run returns, it returns the lines of the standard
  output. It catches no other exception.
\<close>

definition get_cache_listing ::
  "'w system \<Rightarrow> 'w \<Rightarrow> (exn + string list) \<times> event list \<times> 'w" where
  "get_cache_listing sys w =
     (case subprocess_run sys [''hf'', ''cache'', ''ls''] (get_hf_env sys) w of
        (Inr stdout, w') \<Rightarrow>
          (Inr (splitlines stdout), [SubprocessRun [''hf'', ''cache'', ''ls'']], w')
      | (Inl (CalledProcessError returncode), w') \<Rightarrow>
          (Inr [],
           [SubprocessRun [''hf'', ''cache'', ''ls''],
            Log ERROR ''hf cache ls failed with exit code %s'' [ArgInt returncode]],
           w')
      | (Inl exc, w') \<Rightarrow> (Inl exc, [SubprocessRun [''hf'', ''cache'', ''ls'']], w'))"

section \<open>The download orchestrator (download\_model)\<close>

text \<open>
  The fragment of two log messages that shows the ref: an at sign and the ref when
  the ref is true, nothing otherwise.
\<close>

definition at_ref :: "string option \<Rightarrow> string" where
  "at_ref ref_arg =
     (case ref_arg of Some r \<Rightarrow> (if truthy_str ref_arg then ''@'' @ r else []) | None \<Rightarrow> [])"

text \<open>
  The download logs its start, calls \<open>snapshot_download\<close> and prints an empty line.
  An exception of \<open>snapshot_download\<close> is not caught.
\<close>

definition download_model ::
  "'w system \<Rightarrow> string \<Rightarrow> string option \<Rightarrow> patterns option \<Rightarrow> patterns option \<Rightarrow> 'w
   \<Rightarrow> (exn + unit) \<times> event list \<times> 'w" where
  "download_model sys repo_arg ref_arg include exclude w =
     (let started = [Log INFO (''Downloading repo '' @ repo_arg @ at_ref ref_arg) [],
                     SnapshotDownload repo_arg ref_arg include exclude]
      in case snapshot_download sys repo_arg ref_arg include exclude w of
           (Some exc, w') \<Rightarrow> (Inl exc, started, w')
         | (None, w') \<Rightarrow> (Inr (), started @ [Print []], w'))"

section \<open>The verifier (verify\_cache)\<close>

text \<open>The log line of one mismatch.\<close>

definition mismatch_line :: "mismatch \<Rightarrow> string" where
  "mismatch_line m =
     ''  - '' @ path m @ '': expected '' @ expected m @ '' ('' @ algorithm m
       @ ''), got '' @ actual m"

text \<open>
  The verifier logs the equivalent command, calls \<open>verify_repo_checksums\<close> and
  logs the outcome. The two not-found exceptions are caught; any other exception is
  not. The two marks in front of the failure and success lines are U+274C and U+2705.
\<close>

definition verify_cache ::
  "'w system \<Rightarrow> string \<Rightarrow> string option \<Rightarrow> string option \<Rightarrow> 'w
   \<Rightarrow> (exn + unit) \<times> event list \<times> 'w" where
  "verify_cache sys repo_arg repo_type ref_arg w =
     (let cmd = [''hf'', ''cache'', ''verify'', repo_arg];
          cmd = (case ref_arg of
                   Some r \<Rightarrow> (if truthy_str ref_arg then cmd @ [''--revision'', r] else cmd)
                 | None \<Rightarrow> cmd);
          cmd = str_join '' '' cmd;
          started = [Log INFO (''Verifying repo '' @ repo_arg @ at_ref ref_arg
                                @ '', equivalent to: '' @ [CHR 0x60] @ cmd @ [CHR 0x60]) [],
                     VerifyRepoChecksums repo_arg repo_type ref_arg]
      in case verify_repo_checksums sys repo_arg repo_type ref_arg w of
           (Inl (RepositoryNotFoundError msg), w') \<Rightarrow>
             (Inr (),
              started @ [Log ERROR (''Repository '' @ repo_arg @ '' not found: '' @ msg) []],
              w')
         | (Inl (RevisionNotFoundError msg), w') \<Rightarrow>
             (Inr (),
              started @ [Log ERROR (''Repository '' @ repo_arg @ '' revision ''
                                     @ str_optional ref_arg @ '' not found: '' @ msg) []],
              w')
         | (Inl exc, w') \<Rightarrow> (Inl exc, started, w')
         | (Inr result, w') \<Rightarrow>
             (if mismatches result \<noteq> [] then
                (Inr (),
                 started
                 @ [Log ERROR ([CHR 0xE2, CHR 0x9D, CHR 0x8C] @ '' Repo '' @ repo_arg
                      @ '' checksum verification failed for the following file(s)'') []]
                 @ map (\<lambda>m. Log ERROR (mismatch_line m) []) (mismatches result),
                 w')
              else
                (Inr (),
                 started
                 @ [Log INFO ([CHR 0xE2, CHR 0x9C, CHR 0x85] @ '' Verified ''
                      @ str_int (checked_count result) @ '' file(s) for '' @ [CHR 0x27]
                      @ repo_arg @ [CHR 0x27] @ '' ('' @ str_optional repo_type @ '') in ''
                      @ verified_path result) []],
                 w')))"

section \<open>The entry point (main)\<close>

text \<open>The parsed command line: \<open>args.manifest\<close>, \<open>args.dry_run\<close>, \<open>args.version\<close>.\<close>

record args =
  manifest :: string
  dry_run :: bool
  version :: bool

text \<open>
  The loop over the entries. An entry whose \<open>repo\<close> is false is skipped with a
  warning. For the others the equivalent command is logged and, unless the run is a
  dry run, the entry is downloaded and verified (with no \<open>repo_type\<close>). An exception
  ends the loop.
\<close>

fun process_entries ::
  "'w system \<Rightarrow> bool \<Rightarrow> ModelConfig list \<Rightarrow> 'w \<Rightarrow> (exn + unit) \<times> event list \<times> 'w" where
  "process_entries sys dry [] w = (Inr (), [], w)"
| "process_entries sys dry (entry # entries) w =
     (if repo entry = [] then
        (case process_entries sys dry entries w of
           (r, evs, w') \<Rightarrow>
             (r, Log WARNING ''Skipping entry without 'repo' key: %s'' [ArgEntry entry] # evs, w'))
      else
        (let cmd_str = build_hf_command (repo entry) (ref entry) (include_patterns entry)
                         (exclude_patterns entry);
             shown = [Log INFO (''Equivalent command: '' @ [CHR 0x60] @ cmd_str @ [CHR 0x60]) []]
         in if dry then
              (case process_entries sys dry entries w of
                 (r, evs, w') \<Rightarrow> (r, shown @ evs, w'))
            else
              (case download_model sys (repo entry) (ref entry) (include_patterns entry)
                      (exclude_patterns entry) w of
                 (Inl exc, evs1, w1) \<Rightarrow> (Inl exc, shown @ evs1, w1)
               | (Inr u, evs1, w1) \<Rightarrow>
                   (case verify_cache sys (repo entry) None (ref entry) w1 of
                      (Inl exc, evs2, w2) \<Rightarrow> (Inl exc, shown @ evs1 @ evs2, w2)
                    | (Inr u, evs2, w2) \<Rightarrow>
                        (case process_entries sys dry entries w2 of
                           (r, evs, w') \<Rightarrow> (r, shown @ evs1 @ evs2 @ evs, w'))))))"

text \<open>One line of the diff, in green, in red, or as it is.\<close>

definition colourise :: "string \<Rightarrow> string" where
  "colourise line =
     (if startswith line ''+'' \<and> \<not> startswith line ''+++''
      then CHR 0x1B # ''[32m'' @ line @ CHR 0x1B # ''[0m''
      else if startswith line ''-'' \<and> \<not> startswith line ''---''
      then CHR 0x1B # ''[31m'' @ line @ CHR 0x1B # ''[0m''
      else line)"

text \<open>
  The end of the run: the final listing is captured and logged, the diff of the two
  listings is joined into one string, and when that string is not empty its lines
  are logged under a heading. An exception of the listing ends the run.
\<close>

definition show_final ::
  "'w system \<Rightarrow> string list \<Rightarrow> 'w \<Rightarrow> (exn + unit) \<times> event list \<times> 'w" where
  "show_final sys initial_cache w =
     (case get_cache_listing sys w of
        (Inl exc, evs, w') \<Rightarrow> (Inl exc, evs, w')
      | (Inr final_cache, evs, w') \<Rightarrow>
          (let diff = concat (unified_diff sys initial_cache final_cache ''initial'' ''final'' [])
           in (Inr (),
               evs
               @ [Log INFO (CHR 0x0A # ''Final cache state:'') []]
               @ map (\<lambda>line. Log INFO line []) final_cache
               @ (if diff \<noteq> [] then
                    Log INFO (CHR 0x0A # ''Cache changes (colourised):'') []
                    # map (\<lambda>line. Log INFO (colourise line) []) (splitlines diff)
                  else []),
               w')))"

text \<open>
  \<open>main\<close>, after the command line is parsed. With \<open>--version\<close> it prints the
  version and returns. Otherwise it sets up logging and loads the manifest; with no
  entries it logs a notice, with entries it captures and logs the initial listing and
  runs the loop; then, in both cases, comes the end of the run. An exception that is
  not caught ends the run where it is raised.
\<close>

definition main :: "'w system \<Rightarrow> args \<Rightarrow> 'w \<Rightarrow> (exn + unit) \<times> event list \<times> 'w" where
  "main sys a w =
     (if version a then
        (Inr (), [Print (case pkg_version sys of Some v \<Rightarrow> v | None \<Rightarrow> ''0.0.0'')], w)
      else
        (case load_manifest sys (manifest a) of
           (Inl exc, evs0) \<Rightarrow> (Inl exc, BasicConfig INFO ''%(message)s'' # evs0, w)
         | (Inr data, evs0) \<Rightarrow>
             (let setup = BasicConfig INFO ''%(message)s'' # evs0 in
              if models data = [] then
                (case show_final sys [] w of
                   (r, evs2, w2) \<Rightarrow>
                     (r,
                      setup @ [Log INFO ''No models defined in %s'' [ArgPath (manifest a)]] @ evs2,
                      w2))
              else
                (case get_cache_listing sys w of
                   (Inl exc, evs1, w1) \<Rightarrow> (Inl exc, setup @ evs1, w1)
                 | (Inr initial_cache, evs1, w1) \<Rightarrow>
                     (let listed = evs1
                            @ [Log INFO (CHR 0x0A # ''Initial cache state:'') []]
                            @ map (\<lambda>line. Log INFO line []) initial_cache
                      in case process_entries sys (dry_run a) (models data) w1 of
                           (Inl exc, evs, w') \<Rightarrow> (Inl exc, setup @ listed @ evs, w')
                         | (Inr u, evs, w') \<Rightarrow>
                             (case show_final sys initial_cache w' of
                                (r, evs2, w2) \<Rightarrow> (r, setup @ listed @ evs @ evs2, w2)))))))"

section \<open>The specification's wording\<close>

text \<open>
  The command formatter as the specification words it: the repo token, with \<open>@ref\<close>
  appended if a ref is given, then one \<open>--include\<close> pair per include pattern and one
  \<open>--exclude\<close> pair per exclude pattern, in the given order, joined by single
  spaces. The patterns that are given are the single string or the strings of the
  list.
\<close>

fun given_patterns :: "patterns option \<Rightarrow> string list" where
  "given_patterns None = []"
| "given_patterns (Some (Single p)) = [p]"
| "given_patterns (Some (Many ps)) = ps"

definition format_equivalent_command ::
  "string \<Rightarrow> string option \<Rightarrow> patterns option \<Rightarrow> patterns option \<Rightarrow> string" where
  "format_equivalent_command repo_arg ref_arg include exclude =
     str_join '' ''
       ([''hf'', ''download'', repo_arg @ (case ref_arg of None \<Rightarrow> [] | Some r \<Rightarrow> ''@'' @ r)]
        @ concat (map (\<lambda>p. [''--include'', p]) (given_patterns include))
        @ concat (map (\<lambda>p. [''--exclude'', p]) (given_patterns exclude)))"

text \<open>
  What the formatter takes as given: an empty ref and an empty single pattern count
  as absent.
\<close>

fun nonempty_ref :: "string option \<Rightarrow> string option" where
  "nonempty_ref None = None"
| "nonempty_ref (Some r) = (if r = [] then None else Some r)"

fun nonempty_single :: "patterns option \<Rightarrow> patterns option" where
  "nonempty_single (Some (Single p)) = (if p = [] then None else Some (Single p))"
| "nonempty_single ps = ps"

text \<open>
  A well-formed entry of the document, after the specification's data model: a
  dictionary whose \<open>repo\<close> is a string, whose \<open>ref\<close> is absent or a string, and
  whose \<open>include\<close> and \<open>exclude\<close> are absent, a string or a list of strings; and the
  Model Entry it stands for, \<open>ref\<close> being \<open>"main"\<close> when absent.
\<close>

fun is_str :: "pyval \<Rightarrow> bool" where
  "is_str (PStr s) = True"
| "is_str v = False"

fun str_of :: "pyval \<Rightarrow> string" where
  "str_of (PStr s) = s"
| "str_of v = []"

fun well_formed_repo :: "pyval option \<Rightarrow> bool" where
  "well_formed_repo (Some (PStr s)) = True"
| "well_formed_repo v = False"

fun repo_of :: "pyval option \<Rightarrow> string" where
  "repo_of (Some (PStr s)) = s"
| "repo_of v = []"

fun well_formed_ref :: "pyval option \<Rightarrow> bool" where
  "well_formed_ref None = True"
| "well_formed_ref (Some (PStr s)) = True"
| "well_formed_ref (Some v) = False"

fun ref_of :: "pyval option \<Rightarrow> string option" where
  "ref_of (Some (PStr s)) = Some s"
| "ref_of v = Some ''main''"

fun well_formed_patterns :: "pyval option \<Rightarrow> bool" where
  "well_formed_patterns None = True"
| "well_formed_patterns (Some (PStr s)) = True"
| "well_formed_patterns (Some (PList vs)) = list_all is_str vs"
| "well_formed_patterns (Some v) = False"

fun patterns_of :: "pyval option \<Rightarrow> patterns option" where
  "patterns_of (Some (PStr s)) = Some (Single s)"
| "patterns_of (Some (PList vs)) = Some (Many (map str_of vs))"
| "patterns_of v = None"

fun well_formed_entry :: "pyval \<Rightarrow> bool" where
  "well_formed_entry (PDict kvs) =
     (well_formed_repo (map_of kvs ''repo'') \<and> well_formed_ref (map_of kvs ''ref'')
      \<and> well_formed_patterns (map_of kvs ''include'')
      \<and> well_formed_patterns (map_of kvs ''exclude''))"
| "well_formed_entry v = False"

fun entry_of :: "pyval \<Rightarrow> ModelConfig" where
  "entry_of (PDict kvs) =
     \<lparr>repo = repo_of (map_of kvs ''repo''), ref = ref_of (map_of kvs ''ref''),
      include_patterns = patterns_of (map_of kvs ''include''),
      exclude_patterns = patterns_of (map_of kvs ''exclude'')\<rparr>"
| "entry_of v = \<lparr>repo = [], ref = None, include_patterns = None, exclude_patterns = None\<rparr>"

section \<open>Observations on a trace\<close>

text \<open>The calls of the hub client, and the capture of the cache listing.\<close>

fun is_hub_call :: "event \<Rightarrow> bool" where
  "is_hub_call (SnapshotDownload r f i e) = True"
| "is_hub_call (VerifyRepoChecksums r t f) = True"
| "is_hub_call ev = False"

definition is_cache_listing :: "event \<Rightarrow> bool" where
  "is_cache_listing ev = (ev = SubprocessRun [''hf'', ''cache'', ''ls''])"

text \<open>A log record that shows an equivalent command.\<close>

fun is_command_log :: "event \<Rightarrow> bool" where
  "is_command_log (Log lvl msg as) = (lvl = INFO \<and> startswith msg ''Equivalent command: '')"
| "is_command_log ev = False"

text \<open>
  What the loop does for one entry in a dry run: the warning for an entry it skips,
  the equivalent command for any other.
\<close>

definition dry_run_event :: "ModelConfig \<Rightarrow> event" where
  "dry_run_event entry =
     (if repo entry = [] then
        Log WARNING ''Skipping entry without 'repo' key: %s'' [ArgEntry entry]
      else
        Log INFO (''Equivalent command: '' @ [CHR 0x60]
                  @ build_hf_command (repo entry) (ref entry) (include_patterns entry)
                      (exclude_patterns entry)
                  @ [CHR 0x60]) [])"

section \<open>An example environment\<close>

text \<open>
  An environment to run the program on: one manifest file, \<open>facehugger.yaml\<close>, that
  parses to the document \<open>doc\<close>; an \<open>hf\<close> command that exits with \<open>rc\<close> after
  writing the bytes \<open>out\<close> to its standard output and nothing to its standard
  error; a locale whose encoding is ASCII, in which a byte with the high bit set
  cannot be decoded; the diff of the standard library; a hub on which every download
  succeeds and every verification returns \<open>outcome\<close>. The state of the world counts
  the downloads.
\<close>

definition decode_ascii :: "string \<Rightarrow> string option" where
  "decode_ascii bytes = (if list_all (\<lambda>c. \<not> digit7 c) bytes then Some bytes else None)"

definition example_system ::
  "pyval \<Rightarrow> int \<Rightarrow> string \<Rightarrow> exn + verification \<Rightarrow> nat system" where
  "example_system doc rc out outcome =
     \<lparr>pkg_version = Some ''0.1.0'',
      files = [''facehugger.yaml'' \<mapsto> ''models''],
      yaml_safe_load = (\<lambda>text. Inr doc),
      str_path = (\<lambda>p. p),
      str_ValidationError = (\<lambda>es. ''validation error''),
      venv_bin = ''/venv/bin'',
      os_environ = Map.empty,
      unified_diff = difflib_unified_diff,
      run_process = (\<lambda>argv env w. (Inr (rc, out, []), w)),
      decode_text = decode_ascii,
      snapshot_download = (\<lambda>r f i e w. (None, Suc w)),
      verify_repo_checksums = (\<lambda>r t f w. (outcome, w))\<rparr>"

section \<open>Properties\<close>

declare str_nat.simps [simp del]
declare splitlines_from.simps [simp del]

subsection \<open>Evaluation\<close>

lemma splitlines_from_Nil: "splitlines_from cur [] = (if cur = [] then [] else [cur])"
  by (simp add: splitlines_from.simps)

lemma splitlines_from_Cons:
  "splitlines_from cur (c # cs) =
     (if line_break_len (c # cs) = 0 then splitlines_from (cur @ [c]) cs
      else cur # splitlines_from [] (drop (line_break_len (c # cs)) (c # cs)))"
  by (subst splitlines_from.simps) simp

subsection \<open>The diff of a sequence with itself\<close>

text \<open>
  The matcher compares a sequence with itself. Popular elements are missing from
  \<open>b2j\<close>, so the block found by the main loop of \<open>find_longest_match\<close> need
  not be the whole sequence, but it lies on the diagonal: at every row \<open>i\<close> the
  length at column \<open>i\<close> is the length of the run of elements that are not popular
  ending there, and no other column and no earlier row has a longer one. The loops
  that extend the block then reach both ends.
\<close>

fun positions :: "'a \<Rightarrow> 'a list \<Rightarrow> nat \<Rightarrow> nat list" where
  "positions x [] i = []"
| "positions x (elt # rest) i =
     (if elt = x then i # positions x rest (Suc i) else positions x rest (Suc i))"

lemma chain_b_loop_positions:
  "chain_b_loop bs i m x =
     (if positions x bs i = [] then m x
      else Some ((case m x of None \<Rightarrow> [] | Some l \<Rightarrow> l) @ positions x bs i))"
  by (induction bs arbitrary: i m) auto

lemma in_positions:
  "j \<in> set (positions x bs i) \<longleftrightarrow> i \<le> j \<and> j < i + length bs \<and> bs ! (j - i) = x"
proof (induction bs arbitrary: i)
  case Nil
  show ?case by simp
next
  case (Cons e bs)
  show ?case
  proof (cases "j \<le> i")
    case True
    then show ?thesis by (auto simp: Cons.IH)
  next
    case False
    then have "j - i = Suc (j - Suc i)" by simp
    with False show ?thesis by (auto simp: Cons.IH)
  qed
qed

lemma set_positions:
  "set (positions x bs i) = {j. i \<le> j \<and> j < i + length bs \<and> bs ! (j - i) = x}"
  using in_positions [of _ x bs i] by blast

lemma sorted_positions: "sorted_wrt (<) (positions x bs i)"
  by (induction bs arbitrary: i) (auto simp: set_positions)

definition good_b2j :: "'a list \<Rightarrow> ('a \<rightharpoonup> nat list) \<Rightarrow> bool" where
  "good_b2j b b2j =
     (\<forall>x js. b2j x = Some js \<longrightarrow>
        sorted_wrt (<) js \<and> set js = {j. j < length b \<and> b ! j = x})"

lemma good_chain_b: "good_b2j b (chain_b b)"
proof -
  have loop: "\<And>x js. chain_b_loop b 0 Map.empty x = Some js \<Longrightarrow>
                sorted_wrt (<) js \<and> set js = {j. j < length b \<and> b ! j = x}"
    by (auto simp: chain_b_loop_positions set_positions sorted_positions split: if_splits)
  show ?thesis
    unfolding good_b2j_def chain_b_def Let_def
    by (auto dest!: loop split: if_splits option.splits)
qed

fun run_len :: "('a \<rightharpoonup> nat list) \<Rightarrow> 'a list \<Rightarrow> nat \<Rightarrow> nat" where
  "run_len b2j L 0 = (if b2j (L ! 0) = None then 0 else 1)"
| "run_len b2j L (Suc i) = (if b2j (L ! Suc i) = None then 0 else Suc (run_len b2j L i))"

lemma run_len_zero: "b2j (L ! i) = None \<Longrightarrow> run_len b2j L i = 0"
  by (cases i) simp_all

lemma run_len_pos: "b2j (L ! i) \<noteq> None \<Longrightarrow> 0 < run_len b2j L i"
  by (cases i) simp_all

definition next_len :: "(nat \<rightharpoonup> nat) \<Rightarrow> nat \<Rightarrow> nat" where
  "next_len j2len j =
     (if j = 0 then 0 else (case j2len (j - 1) of None \<Rightarrow> 0 | Some v \<Rightarrow> v)) + 1"

lemma flm_inner_Cons:
  "j < bhi \<Longrightarrow>
   flm_inner i 0 bhi j2len (j # js) (newj2len, besti, bestj, bestsize) =
     flm_inner i 0 bhi j2len js
       (if next_len j2len j > bestsize
        then (newj2len(j \<mapsto> next_len j2len j), Suc i - next_len j2len j,
              Suc j - next_len j2len j, next_len j2len j)
        else (newj2len(j \<mapsto> next_len j2len j), besti, bestj, bestsize))"
  by (simp add: next_len_def Let_def)

definition rowdict_ok :: "('a \<rightharpoonup> nat list) \<Rightarrow> 'a list \<Rightarrow> nat \<Rightarrow> (nat \<rightharpoonup> nat) \<Rightarrow> bool" where
  "rowdict_ok b2j L r j2len =
     ((\<forall>j v. j2len j = Some v \<longrightarrow>
         (\<exists>r'. r = Suc r' \<and> v \<le> run_len b2j L r' \<and> v \<le> run_len b2j L j))
      \<and> (\<forall>r'. r = Suc r' \<and> b2j (L ! r') \<noteq> None \<longrightarrow> j2len r' = Some (run_len b2j L r')))"

definition best_ok :: "('a \<rightharpoonup> nat list) \<Rightarrow> 'a list \<Rightarrow> nat \<Rightarrow> match \<Rightarrow> bool" where
  "best_ok b2j L r best =
     (case best of (besti, bestj, bestsize) \<Rightarrow>
        besti = bestj \<and> (\<forall>i'<r. run_len b2j L i' \<le> bestsize))"

definition inner_ok ::
  "('a \<rightharpoonup> nat list) \<Rightarrow> 'a list \<Rightarrow> nat \<Rightarrow> nat list \<Rightarrow> (nat \<rightharpoonup> nat) \<times> match \<Rightarrow> bool" where
  "inner_ok b2j L i pre st =
     (case st of (newj2len, besti, bestj, bestsize) \<Rightarrow>
        besti = bestj
        \<and> (\<forall>j v. newj2len j = Some v \<longrightarrow> v \<le> run_len b2j L i \<and> v \<le> run_len b2j L j)
        \<and> (\<forall>i'<i. run_len b2j L i' \<le> bestsize)
        \<and> (i \<in> set pre \<longrightarrow>
             newj2len i = Some (run_len b2j L i) \<and> run_len b2j L i \<le> bestsize))"

lemma next_len_bound:
  assumes np: "b2j (L ! i) \<noteq> None" and row: "rowdict_ok b2j L i j2len"
      and j: "L ! j = L ! i"
  shows "next_len j2len j \<le> run_len b2j L i \<and> next_len j2len j \<le> run_len b2j L j"
proof -
  from np j have npj: "b2j (L ! j) \<noteq> None" by simp
  show ?thesis
  proof (cases "j = 0 \<or> j2len (j - 1) = None")
    case True
    then have "next_len j2len j = 1" by (auto simp: next_len_def)
    with run_len_pos [of b2j L i, OF np] run_len_pos [of b2j L j, OF npj] show ?thesis by simp
  next
    case False
    then obtain j' v where j': "j = Suc j'" and v: "j2len j' = Some v"
      by (cases j) auto
    from row v obtain r' where r': "i = Suc r'" "v \<le> run_len b2j L r'" "v \<le> run_len b2j L j'"
      unfolding rowdict_ok_def by blast
    have "next_len j2len j = Suc v" using j' v by (simp add: next_len_def)
    moreover have "run_len b2j L i = Suc (run_len b2j L r')" using np r'(1) by simp
    moreover have "run_len b2j L j = Suc (run_len b2j L j')" using npj j' by simp
    ultimately show ?thesis using r' by simp
  qed
qed

lemma next_len_diag:
  assumes np: "b2j (L ! i) \<noteq> None" and row: "rowdict_ok b2j L i j2len"
  shows "next_len j2len i = run_len b2j L i"
proof (cases i)
  case 0
  with np show ?thesis by (simp add: next_len_def)
next
  case (Suc r')
  show ?thesis
  proof (cases "b2j (L ! r') = None")
    case True
    have "next_len j2len i = 1"
    proof (cases "j2len r'")
      case None
      with Suc show ?thesis by (simp add: next_len_def)
    next
      case (Some v)
      with row Suc have "v \<le> run_len b2j L r'" unfolding rowdict_ok_def by auto
      with run_len_zero [of b2j L r', OF True] have "v = 0" by simp
      with Some Suc show ?thesis by (simp add: next_len_def)
    qed
    with np Suc run_len_zero [of b2j L r', OF True] show ?thesis by simp
  next
    case False
    with row Suc have "j2len r' = Some (run_len b2j L r')"
      unfolding rowdict_ok_def by blast
    with np Suc show ?thesis by (simp add: next_len_def)
  qed
qed

lemma inner_step:
  assumes np: "b2j (L ! i) \<noteq> None" and row: "rowdict_ok b2j L i j2len"
      and j: "L ! j = L ! i"
      and before: "i < j \<Longrightarrow> i \<in> set pre" and fresh: "j \<notin> set pre"
      and inv: "inner_ok b2j L i pre (newj2len, besti, bestj, bestsize)"
  shows "inner_ok b2j L i (pre @ [j])
           (if next_len j2len j > bestsize
            then (newj2len(j \<mapsto> next_len j2len j), Suc i - next_len j2len j,
                  Suc j - next_len j2len j, next_len j2len j)
            else (newj2len(j \<mapsto> next_len j2len j), besti, bestj, bestsize))"
proof -
  define k where "k = next_len j2len j"
  from next_len_bound [OF np row j]
  have kb: "k \<le> run_len b2j L i" "k \<le> run_len b2j L j" by (simp_all add: k_def)
  from inv have a: "besti = bestj"
    and b: "\<And>j' v. newj2len j' = Some v \<Longrightarrow> v \<le> run_len b2j L i \<and> v \<le> run_len b2j L j'"
    and c: "\<And>i'. i' < i \<Longrightarrow> run_len b2j L i' \<le> bestsize"
    and d: "i \<in> set pre \<Longrightarrow> newj2len i = Some (run_len b2j L i) \<and> run_len b2j L i \<le> bestsize"
    unfolding inner_ok_def by auto
  have diag: "j = i \<Longrightarrow> k = run_len b2j L i"
    using next_len_diag [OF np row] by (simp add: k_def)
  have b': "\<And>j' v. (newj2len(j \<mapsto> k)) j' = Some v \<Longrightarrow>
                v \<le> run_len b2j L i \<and> v \<le> run_len b2j L j'"
    using b kb by (auto split: if_splits)
  show ?thesis
  proof (cases "k > bestsize")
    case True
    have ji: "j = i"
    proof (rule ccontr)
      assume "j \<noteq> i"
      then consider "j < i" | "i < j" by linarith
      then show False
      proof cases
        case 1
        from c [OF 1] kb(2) True show False by simp
      next
        case 2
        from d [OF before [OF 2]] kb(1) True show False by simp
      qed
    qed
    have "inner_ok b2j L i (pre @ [j]) (newj2len(j \<mapsto> k), Suc i - k, Suc j - k, k)"
      unfolding inner_ok_def using b' c True diag [OF ji] ji
      by (auto dest: c simp: less_imp_le_nat order.trans)
    with True show ?thesis by (simp add: k_def)
  next
    case False
    have d': "i \<in> set (pre @ [j]) \<Longrightarrow>
              (newj2len(j \<mapsto> k)) i = Some (run_len b2j L i) \<and> run_len b2j L i \<le> bestsize"
    proof (cases "j = i")
      case True
      with diag False show ?thesis by simp
    next
      case ne: False
      assume "i \<in> set (pre @ [j])"
      with ne have "i \<in> set pre" by auto
      from d [OF this] ne show ?thesis by simp
    qed
    have "inner_ok b2j L i (pre @ [j]) (newj2len(j \<mapsto> k), besti, bestj, bestsize)"
      unfolding inner_ok_def using a b' c d' by auto
    with False show ?thesis by (simp add: k_def)
  qed
qed

lemma inner_loop:
  assumes np: "b2j (L ! i) \<noteq> None" and row: "rowdict_ok b2j L i j2len"
  shows "sorted_wrt (<) (pre @ js) \<Longrightarrow> \<forall>j\<in>set js. L ! j = L ! i \<and> j < bhi \<Longrightarrow>
         i \<in> set (pre @ js) \<Longrightarrow> inner_ok b2j L i pre st \<Longrightarrow>
         inner_ok b2j L i (pre @ js) (flm_inner i 0 bhi j2len js st)"
proof (induction js arbitrary: pre st)
  case Nil
  then show ?case by simp
next
  case (Cons j js)
  obtain newj2len besti bestj bestsize where st: "st = (newj2len, besti, bestj, bestsize)"
    by (cases st)
  let ?st' = "if next_len j2len j > bestsize
            then (newj2len(j \<mapsto> next_len j2len j), Suc i - next_len j2len j,
                  Suc j - next_len j2len j, next_len j2len j)
            else (newj2len(j \<mapsto> next_len j2len j), besti, bestj, bestsize)"
  from Cons.prems(2) have j: "L ! j = L ! i" "j < bhi" by simp_all
  from Cons.prems(1) have lt: "\<forall>x\<in>set pre. x < j" and gt: "\<forall>y\<in>set js. j < y"
    by (auto simp: sorted_wrt_append)
  from lt have fresh: "j \<notin> set pre" by auto
  have before: "i < j \<Longrightarrow> i \<in> set pre"
    using Cons.prems(3) gt by auto
  from inner_step [OF np row j(1) before fresh Cons.prems(4) [unfolded st]]
  have step: "inner_ok b2j L i (pre @ [j]) ?st'" by simp
  have "inner_ok b2j L i ((pre @ [j]) @ js) (flm_inner i 0 bhi j2len js ?st')"
    using Cons.prems by (intro Cons.IH [OF _ _ _ step]) simp_all
  then show ?case
    unfolding st flm_inner_Cons [OF j(2)] by simp
qed

lemma outer_loop:
  assumes good: "good_b2j L b2j"
  shows "m \<le> length L \<Longrightarrow> rowdict_ok b2j L m j2len \<Longrightarrow> best_ok b2j L m best \<Longrightarrow>
         best_ok b2j L (length L)
           (snd (flm_outer L b2j 0 (length L) [m..<length L] (j2len, best)))"
proof (induction "length L - m" arbitrary: m j2len best)
  case 0
  then show ?case by simp
next
  case (Suc d)
  then have lt: "m < length L" by simp
  obtain besti bestj bestsize where best: "best = (besti, bestj, bestsize)"
    by (cases best)
  let ?js = "case b2j (L ! m) of None \<Rightarrow> [] | Some js \<Rightarrow> js"
  let ?st = "flm_inner m 0 (length L) j2len ?js (Map.empty, best)"
  have ok: "rowdict_ok b2j L (Suc m) (fst ?st) \<and> best_ok b2j L (Suc m) (snd ?st)"
  proof (cases "b2j (L ! m)")
    case None
    from Suc.prems(3) run_len_zero [of b2j L m, OF None]
    have "best_ok b2j L (Suc m) best"
      unfolding best_ok_def best by (auto simp: less_Suc_eq)
    with None show ?thesis by (simp add: rowdict_ok_def)
  next
    case (Some js)
    then have np: "b2j (L ! m) \<noteq> None" by simp
    from good Some have js: "sorted_wrt (<) js" "set js = {j. j < length L \<and> L ! j = L ! m}"
      unfolding good_b2j_def by blast+
    have init: "inner_ok b2j L m [] (Map.empty, best)"
      using Suc.prems(3) unfolding inner_ok_def best_ok_def best by simp
    have "inner_ok b2j L m ([] @ js) (flm_inner m 0 (length L) j2len js (Map.empty, best))"
      using js lt by (intro inner_loop [OF np Suc.prems(2) _ _ _ init]) auto
    moreover obtain nj bi bj bs where
      res: "flm_inner m 0 (length L) j2len js (Map.empty, best) = (nj, bi, bj, bs)"
      by (cases "flm_inner m 0 (length L) j2len js (Map.empty, best)")
    moreover have "m \<in> set js" using js lt by simp
    ultimately have "rowdict_ok b2j L (Suc m) nj \<and> best_ok b2j L (Suc m) (bi, bj, bs)"
      unfolding inner_ok_def rowdict_ok_def best_ok_def
      by (auto simp: less_Suc_eq)
    with Some res show ?thesis by simp
  qed
  have "d = length L - Suc m" using Suc.hyps(2) by simp
  from Suc.hyps(1) [OF this _ conjunct1 [OF ok] conjunct2 [OF ok]] lt
  have "best_ok b2j L (length L)
          (snd (flm_outer L b2j 0 (length L) [Suc m..<length L] (fst ?st, snd ?st)))"
    by simp
  then show ?case
    using lt by (simp add: upt_conv_Cons)
qed

lemma extend_back_same:
  "\<forall>x. P x \<Longrightarrow> extend_back P L L 0 0 (d, d, s) = (0, 0, s + d)"
proof (induction d arbitrary: s)
  case 0
  show ?case by (subst extend_back.simps) simp
next
  case (Suc d)
  show ?case
    by (subst extend_back.simps) (simp add: Suc.IH [OF Suc.prems] Suc.prems)
qed

lemma extend_forward_same:
  "\<forall>x. P x \<Longrightarrow> s \<le> n \<Longrightarrow> extend_forward P L L n n (0, 0, s) = (0, 0, n)"
proof (induction "n - s" arbitrary: s)
  case 0
  then show ?case by (subst extend_forward.simps) simp
next
  case (Suc d)
  then have "d = n - Suc s" "Suc s \<le> n" by simp_all
  then show ?case
    by (subst extend_forward.simps)
       (simp add: Suc.hyps(1) [OF _ Suc.prems(1)] Suc.prems(1) Suc_le_eq)
qed

lemma extend_back_never: "\<forall>x. \<not> P x \<Longrightarrow> extend_back P a b alo blo best = best"
  by (cases best) (simp add: extend_back.simps)

lemma extend_forward_never: "\<forall>x. \<not> P x \<Longrightarrow> extend_forward P a b ahi bhi best = best"
  by (cases best) (simp add: extend_forward.simps)

lemma find_longest_match_same:
  assumes "good_b2j L b2j"
  shows "find_longest_match L L b2j 0 (length L) 0 (length L) = (0, 0, length L)"
proof -
  let ?n = "length L"
  let ?best = "snd (flm_outer L b2j 0 ?n [0..<?n] (Map.empty, 0, 0, 0))"
  obtain besti bestj bestsize where best: "?best = (besti, bestj, bestsize)"
    by (cases ?best)
  have "rowdict_ok b2j L 0 Map.empty" and "best_ok b2j L 0 (0, 0, 0)"
    by (simp_all add: rowdict_ok_def best_ok_def)
  from outer_loop [OF assms le0 this] best have diag: "besti = bestj"
    by (simp add: best_ok_def)
  have "flm_ok 0 ?n 0 ?n (0, 0, 0)" by (simp add: flm_ok_def)
  from flm_outer_ok [OF le_refl j2len_ok_empty this, of L b2j] best
  have bound: "besti + bestsize \<le> ?n"
    by (auto simp: flm_ok_def split: if_splits)
  have "extend_back (\<lambda>elt. \<not> isbjunk elt) L L 0 0 ?best = (0, 0, bestsize + besti)"
    unfolding best diag [symmetric] by (rule extend_back_same) (simp add: isbjunk_def)
  moreover have "extend_forward (\<lambda>elt. \<not> isbjunk elt) L L ?n ?n (0, 0, bestsize + besti)
                 = (0, 0, ?n)"
    using bound by (intro extend_forward_same) (simp_all add: isbjunk_def add.commute)
  moreover have "extend_back isbjunk L L 0 0 (0, 0, ?n) = (0, 0, ?n)"
    by (rule extend_back_never) (simp add: isbjunk_def)
  moreover have "extend_forward isbjunk L L ?n ?n (0, 0, ?n) = (0, 0, ?n)"
    by (rule extend_forward_never) (simp add: isbjunk_def)
  ultimately show ?thesis
    by (simp add: find_longest_match_def Let_def)
qed

lemma get_matching_blocks_same:
  "get_matching_blocks L L =
     (if L = [] then [(0, 0, 0)] else [(0, 0, length L), (length L, length L, 0)])"
proof -
  have flm: "find_longest_match L L (chain_b L) 0 (length L) 0 (length L) = (0, 0, length L)"
    by (rule find_longest_match_same) (rule good_chain_b)
  have "mb_loop L L (chain_b L) [(0, length L, 0, length L)] []
        = (if L = [] then [] else [(0, 0, length L)])"
    by (simp add: mb_loop.simps flm)
  then show ?thesis
    by (simp add: get_matching_blocks_def Let_def sort_matches_def)
qed

lemma get_opcodes_same:
  "get_opcodes L L = (if L = [] then [] else [(Equal, 0, length L, 0, length L)])"
  by (simp add: get_opcodes_def get_matching_blocks_same)

lemma get_grouped_opcodes_same: "get_grouped_opcodes L L 3 = []"
proof -
  have "length L - (length L - 3) \<le> 3" by arith
  then have "\<not> 6 < length L - (length L - 3)" by simp
  then show ?thesis
    by (simp add: get_grouped_opcodes_def get_opcodes_same Let_def)
qed

lemma difflib_unified_diff_same: "difflib_unified_diff L L fromfile tofile lineterm = []"
  by (simp add: difflib_unified_diff_def get_grouped_opcodes_same)

subsection \<open>The command formatter\<close>

lemma extend_each_concat:
  "extend_each flag parts ps = parts @ concat (map (\<lambda>p. [flag, p]) ps)"
  by (induction ps arbitrary: parts) simp_all

lemma extend_flag_given:
  "extend_flag flag ps parts =
     parts @ concat (map (\<lambda>p. [flag, p]) (given_patterns (nonempty_single ps)))"
proof (cases ps)
  case None
  then show ?thesis by (simp add: extend_flag_def)
next
  case (Some q)
  then show ?thesis
    by (cases q) (simp_all add: extend_flag_def extend_each_concat)
qed

text \<open>
  Claim C3, as amended. For every repo, ref, include and exclude, the formatter returns
  the string the specification describes, \<open>hf download <repo>[@<ref>]\<close> followed
  by the \<open>--include\<close> pairs and then the \<open>--exclude\<close> pairs in the given order,
  joined by single spaces, where a ref that is the empty string and a single pattern
  that is the empty string are taken as not given; and on the specification's
  example it returns the string given there.
\<close>

theorem build_hf_command_format:
  "build_hf_command repo_arg ref_arg include exclude =
     format_equivalent_command repo_arg (nonempty_ref ref_arg)
       (nonempty_single include) (nonempty_single exclude)
   \<and> build_hf_command ''owner/model-repo'' (Some ''main'')
         (Some (Many [''*.gguf'', ''*.safetensors''])) None =
       ''hf download owner/model-repo@main --include *.gguf --include *.safetensors''"
proof
  show "build_hf_command repo_arg ref_arg include exclude =
     format_equivalent_command repo_arg (nonempty_ref ref_arg)
       (nonempty_single include) (nonempty_single exclude)"
    by (cases ref_arg)
       (simp_all add: build_hf_command_def format_equivalent_command_def extend_flag_given)
  show "build_hf_command ''owner/model-repo'' (Some ''main'')
         (Some (Many [''*.gguf'', ''*.safetensors''])) None =
       ''hf download owner/model-repo@main --include *.gguf --include *.safetensors''"
    by (simp add: build_hf_command_def extend_flag_def)
qed

text \<open>The formatter on an empty ref, a single include pattern and two exclude patterns.\<close>

theorem build_hf_command_format_witness:
  "build_hf_command ''owner/model-repo'' (Some '''') (Some (Single ''*.gguf''))
     (Some (Many [''*.ckpt'', ''*.bin'']))
   = ''hf download owner/model-repo --include *.gguf --exclude *.ckpt --exclude *.bin''"
  using build_hf_command_format [of "''owner/model-repo''" "Some ''''"
      "Some (Single ''*.gguf'')" "Some (Many [''*.ckpt'', ''*.bin''])"]
  by (simp add: format_equivalent_command_def)

text \<open>
  Claim C3 as it was stated fails when the ref is the empty string: the specification's
  wording appends \<open>@\<close>, the formatter does not.
\<close>

theorem build_hf_command_empty_ref_counterexample:
  "build_hf_command ''owner/model-repo'' (Some '''') None None
     \<noteq> format_equivalent_command ''owner/model-repo'' (Some '''') None None"
  by (simp add: build_hf_command_def format_equivalent_command_def extend_flag_def)

subsection \<open>Validation\<close>

lemma validate_str_items_well_formed:
  "list_all is_str vs \<Longrightarrow> validate_str_items at i vs = Inr (map str_of vs)"
proof (induction vs arbitrary: i)
  case Nil
  show ?case by simp
next
  case (Cons v vs)
  then obtain s where "v = PStr s" by (cases v) simp_all
  with Cons show ?case by simp
qed

lemma validate_patterns_well_formed:
  assumes "well_formed_patterns x"
  shows "(case x of None \<Rightarrow> Inr None | Some v \<Rightarrow> validate_patterns at v) = Inr (patterns_of x)"
proof (cases x)
  case None
  then show ?thesis by simp
next
  case (Some v)
  with assms show ?thesis
    by (cases v) (simp_all add: validate_str_items_well_formed)
qed

lemma validate_ref_well_formed:
  assumes "well_formed_ref x"
  shows "(case x of None \<Rightarrow> Inr (Some ''main'') | Some v \<Rightarrow> validate_optional_str at v)
         = Inr (ref_of x)"
proof (cases x)
  case None
  then show ?thesis by simp
next
  case (Some v)
  with assms show ?thesis by (cases v) simp_all
qed

lemma validate_repo_well_formed:
  assumes "well_formed_repo x"
  shows "(case x of None \<Rightarrow> Inl [at'] | Some v \<Rightarrow> validate_str at v) = Inr (repo_of x)"
proof (cases x)
  case None
  with assms show ?thesis by simp
next
  case (Some v)
  with assms show ?thesis by (cases v) simp_all
qed

lemma validate_ModelConfig_well_formed:
  assumes "well_formed_entry v"
  shows "validate_ModelConfig at v = Inr (entry_of v)"
proof -
  from assms obtain kvs where v: "v = PDict kvs" by (cases v) simp_all
  with assms have wf: "well_formed_repo (map_of kvs ''repo'')"
      "well_formed_ref (map_of kvs ''ref'')"
      "well_formed_patterns (map_of kvs ''include'')"
      "well_formed_patterns (map_of kvs ''exclude'')"
    by simp_all
  show ?thesis
    unfolding v validate_ModelConfig_def
    by (simp add: validate_repo_well_formed [OF wf(1)] validate_ref_well_formed [OF wf(2)]
        validate_patterns_well_formed [OF wf(3)] validate_patterns_well_formed [OF wf(4)])
qed

lemma validate_ModelConfig_items_well_formed:
  "list_all well_formed_entry vs \<Longrightarrow>
   validate_ModelConfig_items at i vs = Inr (map entry_of vs)"
  by (induction vs arbitrary: i) (simp_all add: validate_ModelConfig_well_formed)

lemma model_validate_well_formed:
  assumes "map_of kvs ''models'' = Some (PList vs)" and "list_all well_formed_entry vs"
  shows "model_validate (PDict kvs) = Inr \<lparr>models = map entry_of vs\<rparr>"
  using assms by (simp add: model_validate_def validate_ModelConfig_items_well_formed)

lemma map_of_Some_truthy: "map_of kvs k = Some v \<Longrightarrow> truthy (PDict kvs)"
  by (cases kvs) simp_all

text \<open>
  Claim C6. Loading a manifest whose \<open>models\<close> list holds well-formed entries
  yields a Manifest: it has as many entries as the file, its \<open>i\<close>-th entry is the
  Model Entry of the file's \<open>i\<close>-th entry, and an entry that omits \<open>ref\<close> has
  \<open>ref\<close> equal to \<open>"main"\<close>.
\<close>

theorem load_manifest_order_and_default_ref:
  assumes "files sys file_path = Some text"
      and "yaml_safe_load sys text = Inr (PDict kvs)"
      and "map_of kvs ''models'' = Some (PList vs)"
      and "list_all well_formed_entry vs"
  shows "\<exists>m. fst (load_manifest sys file_path) = Inr m
           \<and> length (models m) = length vs
           \<and> (\<forall>i<length vs. models m ! i = entry_of (vs ! i)
                \<and> (\<forall>ekvs. vs ! i = PDict ekvs \<and> map_of ekvs ''ref'' = None
                      \<longrightarrow> ref (models m ! i) = Some ''main''))"
proof -
  have "truthy (PDict kvs)" using assms(3) by (rule map_of_Some_truthy)
  then have "fst (load_manifest sys file_path) = Inr \<lparr>models = map entry_of vs\<rparr>"
    using assms(1,2) model_validate_well_formed [OF assms(3,4)]
    by (simp add: load_manifest_def)
  then show ?thesis by auto
qed

text \<open>
  The manifest of two entries, the second with nothing but its \<open>repo\<close>: the loader
  returns the two entries in the file's order, the second with \<open>ref\<close> \<open>"main"\<close>.
\<close>

theorem load_manifest_order_and_default_ref_witness:
  "fst (load_manifest
         (example_system
            (PDict [(''models'',
               PList [PDict [(''repo'', PStr ''test/model1''), (''ref'', PStr ''v1.0''),
                             (''include'', PStr ''*.gguf''),
                             (''exclude'', PList [PStr ''*.ckpt'', PStr ''*.bin''])],
                      PDict [(''repo'', PStr ''test/model2'')]])])
            0 [] (Inl (OtherError [])))
         ''facehugger.yaml'')
   = Inr \<lparr>models =
       [\<lparr>repo = ''test/model1'', ref = Some ''v1.0'', include_patterns = Some (Single ''*.gguf''),
         exclude_patterns = Some (Many [''*.ckpt'', ''*.bin''])\<rparr>,
        \<lparr>repo = ''test/model2'', ref = Some ''main'', include_patterns = None,
         exclude_patterns = None\<rparr>]\<rparr>"
proof -
  let ?e1 = "PDict [(''repo'', PStr ''test/model1''), (''ref'', PStr ''v1.0''),
                    (''include'', PStr ''*.gguf''),
                    (''exclude'', PList [PStr ''*.ckpt'', PStr ''*.bin''])]"
  let ?e2 = "PDict [(''repo'', PStr ''test/model2'')]"
  let ?kvs = "[(''models'', PList [?e1, ?e2])]"
  let ?sys = "example_system (PDict ?kvs) 0 [] (Inl (OtherError []))"
  have h1: "files ?sys ''facehugger.yaml'' = Some ''models''"
    by (simp add: example_system_def)
  have h2: "yaml_safe_load ?sys ''models'' = Inr (PDict ?kvs)"
    by (simp add: example_system_def)
  have h3: "map_of ?kvs ''models'' = Some (PList [?e1, ?e2])"
    by simp
  have h4: "list_all well_formed_entry [?e1, ?e2]"
    by simp
  from load_manifest_order_and_default_ref [OF h1 h2 h3 h4]
  obtain m where m: "fst (load_manifest ?sys ''facehugger.yaml'') = Inr m"
    and len: "length (models m) = length [?e1, ?e2]"
    and nth: "\<forall>i<length [?e1, ?e2]. models m ! i = entry_of ([?e1, ?e2] ! i)"
    by blast
  from nth have "models m ! 0 = entry_of ?e1" "models m ! 1 = entry_of ?e2"
    by simp_all
  with len have "models m = [entry_of ?e1, entry_of ?e2]"
    by (cases "models m"; cases "tl (models m)") auto
  then have "m = \<lparr>models = [entry_of ?e1, entry_of ?e2]\<rparr>"
    by (cases m) simp
  with m show ?thesis by simp
qed

subsection \<open>The loader\<close>

lemma main_load_failure:
  assumes "\<not> version a" and "fst (load_manifest sys (manifest a)) = Inl exc"
  shows "fst (main sys a w) = Inl exc"
  using assms by (cases "load_manifest sys (manifest a)") (simp add: main_def)

text \<open>
  Claim C1, as amended. Loading a manifest whose \<open>models\<close> key is missing (an empty
  file included) or null fails validation: the loader ends the process with a message
  that names the manifest and the validation error, and the exit code of the run is 1.
  A manifest whose \<open>models\<close> key is an empty list passes validation and yields a
  Manifest with no entries.
\<close>

theorem load_manifest_models_required:
  assumes "files sys (manifest a) = Some text"
      and "yaml_safe_load sys text = Inr doc"
      and "(if truthy doc then doc else PDict []) = PDict kvs"
      and "\<not> version a"
  shows "(map_of kvs ''models'' = None \<or> map_of kvs ''models'' = Some PNone \<longrightarrow>
            fst (load_manifest sys (manifest a)) =
              Inl (SystemExit (''Facehugger manifest '' @ str_path sys (manifest a)
                               @ '' failed validation: ''
                               @ str_ValidationError sys [[Field ''models'']]))
            \<and> fst (main sys a w) =
              Inl (SystemExit (''Facehugger manifest '' @ str_path sys (manifest a)
                               @ '' failed validation: ''
                               @ str_ValidationError sys [[Field ''models'']]))
            \<and> exit_code (fst (main sys a w)) = 1)
       \<and> (map_of kvs ''models'' = Some (PList []) \<longrightarrow>
            fst (load_manifest sys (manifest a)) = Inr \<lparr>models = []\<rparr>)"
proof (intro conjI impI)
  assume missing: "map_of kvs ''models'' = None \<or> map_of kvs ''models'' = Some PNone"
  then have "model_validate (PDict kvs) = Inl [[Field ''models'']]"
    by (auto simp: model_validate_def)
  with assms(1-3)
  show failed: "fst (load_manifest sys (manifest a)) =
              Inl (SystemExit (''Facehugger manifest '' @ str_path sys (manifest a)
                               @ '' failed validation: ''
                               @ str_ValidationError sys [[Field ''models'']]))"
    by (simp add: load_manifest_def Let_def)
  from main_load_failure [OF assms(4) failed]
  show "fst (main sys a w) =
              Inl (SystemExit (''Facehugger manifest '' @ str_path sys (manifest a)
                               @ '' failed validation: ''
                               @ str_ValidationError sys [[Field ''models'']]))" .
  from main_load_failure [OF assms(4) failed]
  show "exit_code (fst (main sys a w)) = 1" by simp
next
  assume "map_of kvs ''models'' = Some (PList [])"
  then have "model_validate (PDict kvs) = Inr \<lparr>models = []\<rparr>"
    by (simp add: model_validate_def)
  with assms(1-3) show "fst (load_manifest sys (manifest a)) = Inr \<lparr>models = []\<rparr>"
    by (simp add: load_manifest_def Let_def)
qed

text \<open>A document without the key, and an empty file.\<close>

theorem load_manifest_models_required_witness:
  "exit_code (fst (main (example_system (PDict [(''other_key'', PStr ''other_value'')]) 0 []
                      (Inl (OtherError [])))
                   \<lparr>manifest = ''facehugger.yaml'', dry_run = False, version = False\<rparr> 0)) = 1
   \<and> fst (load_manifest (example_system PNone 0 [] (Inl (OtherError []))) ''facehugger.yaml'')
       = Inl (SystemExit ''Facehugger manifest facehugger.yaml failed validation: validation error'')"
proof
  let ?a = "\<lparr>manifest = ''facehugger.yaml'', dry_run = False, version = False\<rparr>"
  let ?kvs = "[(''other_key'', PStr ''other_value'')]"
  let ?sys = "example_system (PDict ?kvs) 0 [] (Inl (OtherError []))"
  have h1: "files ?sys (manifest ?a) = Some ''models''" by (simp add: example_system_def)
  have h2: "yaml_safe_load ?sys ''models'' = Inr (PDict ?kvs)" by (simp add: example_system_def)
  have h3: "(if truthy (PDict ?kvs) then PDict ?kvs else PDict []) = PDict ?kvs" by simp
  have h4: "\<not> version ?a" by simp
  from load_manifest_models_required [OF h1 h2 h3 h4, of 0]
  show "exit_code (fst (main ?sys ?a 0)) = 1" by simp
next
  let ?a = "\<lparr>manifest = ''facehugger.yaml'', dry_run = False, version = False\<rparr>"
  let ?sys = "example_system PNone 0 [] (Inl (OtherError []))"
  have h1: "files ?sys (manifest ?a) = Some ''models''" by (simp add: example_system_def)
  have h2: "yaml_safe_load ?sys ''models'' = Inr PNone" by (simp add: example_system_def)
  have h3: "(if truthy PNone then PNone else PDict []) = PDict []" by simp
  have h4: "\<not> version ?a" by simp
  from load_manifest_models_required [OF h1 h2 h3 h4, of 0]
  show "fst (load_manifest ?sys ''facehugger.yaml'')
       = Inl (SystemExit ''Facehugger manifest facehugger.yaml failed validation: validation error'')"
    by (simp add: example_system_def)
qed

text \<open>
  Claim C1 as it was stated fails on \<open>models: []\<close>: the loader returns a Manifest,
  and its \<open>models\<close> sequence is empty.
\<close>

theorem load_manifest_empty_models_counterexample:
  "fst (load_manifest (example_system (PDict [(''models'', PList [])]) 0 []
                         (Inl (OtherError [])))
          ''facehugger.yaml'') = Inr \<lparr>models = []\<rparr>"
  by (simp add: load_manifest_def example_system_def model_validate_def)

subsection \<open>The version flag\<close>

text \<open>
  Claim C4. With \<open>--version\<close> the program prints the package version and returns,
  so the exit code is 0. The print is the only effect: the manifest is neither looked
  for nor opened, whatever the manifest argument and the files are.
\<close>

theorem main_version:
  assumes "version a"
  shows "main sys a w =
           (Inr (), [Print (case pkg_version sys of Some v \<Rightarrow> v | None \<Rightarrow> ''0.0.0'')], w)
         \<and> exit_code (fst (main sys a w)) = 0"
  using assms by (simp add: main_def)

text \<open>The flag together with the path of a manifest that does not exist.\<close>

theorem main_version_witness:
  "main ((example_system PNone 1 [] (Inl (OtherError [])))\<lparr>files := Map.empty\<rparr>)
        \<lparr>manifest = ''missing.yaml'', dry_run = False, version = True\<rparr> 0
   = (Inr (), [Print ''0.1.0''], 0)"
  using main_version [of "\<lparr>manifest = ''missing.yaml'', dry_run = False, version = True\<rparr>"
      "(example_system PNone 1 [] (Inl (OtherError [])))\<lparr>files := Map.empty\<rparr>" 0]
  by (simp add: example_system_def)

subsection \<open>The cache listing\<close>




subsection \<open>The verifier\<close>

text \<open>The two events every verification starts with.\<close>

lemma verify_cache_started:
  "\<exists>msg. take 2 (fst (snd (verify_cache sys repo_arg repo_type ref_arg w)))
     = [Log INFO msg [], VerifyRepoChecksums repo_arg repo_type ref_arg]"
  by (cases "verify_repo_checksums sys repo_arg repo_type ref_arg w")
     (auto simp: verify_cache_def Let_def split: sum.splits exn.splits)

text \<open>
  Claim C8. Whatever \<open>verify_repo_checksums\<close> does among the handled outcomes, the
  verifier returns without an exception. After its two opening events it logs: for a
  repository or a revision that is not found, one error naming it; for a result with
  mismatches, a heading and then one error per mismatch with the path, the expected
  digest, the algorithm and the actual digest; for a result without mismatches, one
  summary with the checked count and the verified path.
\<close>

theorem verify_cache_handled:
  assumes "verify_repo_checksums sys repo_arg repo_type ref_arg w = (outcome, w')"
  shows "(\<forall>msg. outcome = Inl (RepositoryNotFoundError msg) \<longrightarrow>
            fst (verify_cache sys repo_arg repo_type ref_arg w) = Inr ()
            \<and> drop 2 (fst (snd (verify_cache sys repo_arg repo_type ref_arg w)))
                = [Log ERROR (''Repository '' @ repo_arg @ '' not found: '' @ msg) []])
       \<and> (\<forall>msg. outcome = Inl (RevisionNotFoundError msg) \<longrightarrow>
            fst (verify_cache sys repo_arg repo_type ref_arg w) = Inr ()
            \<and> drop 2 (fst (snd (verify_cache sys repo_arg repo_type ref_arg w)))
                = [Log ERROR (''Repository '' @ repo_arg @ '' revision ''
                              @ str_optional ref_arg @ '' not found: '' @ msg) []])
       \<and> (\<forall>result. outcome = Inr result \<and> mismatches result \<noteq> [] \<longrightarrow>
            fst (verify_cache sys repo_arg repo_type ref_arg w) = Inr ()
            \<and> drop 3 (fst (snd (verify_cache sys repo_arg repo_type ref_arg w)))
                = map (\<lambda>m. Log ERROR (''  - '' @ path m @ '': expected '' @ expected m
                                        @ '' ('' @ algorithm m @ ''), got '' @ actual m) [])
                      (mismatches result))
       \<and> (\<forall>result. outcome = Inr result \<and> mismatches result = [] \<longrightarrow>
            fst (verify_cache sys repo_arg repo_type ref_arg w) = Inr ()
            \<and> drop 2 (fst (snd (verify_cache sys repo_arg repo_type ref_arg w)))
                = [Log INFO ([CHR 0xE2, CHR 0x9C, CHR 0x85] @ '' Verified ''
                      @ str_int (checked_count result) @ '' file(s) for '' @ [CHR 0x27]
                      @ repo_arg @ [CHR 0x27] @ '' ('' @ str_optional repo_type @ '') in ''
                      @ verified_path result) []])"
  using assms by (simp add: verify_cache_def Let_def mismatch_line_def)

text \<open>A repository that is not found, and a result with one mismatch.\<close>

theorem verify_cache_handled_witness:
  "verify_cache
     (example_system PNone 0 [] (Inl (RepositoryNotFoundError ''404 Client Error'')))
     ''owner/model-repo'' None (Some ''main'') 0
   = (Inr (),
      [Log INFO (''Verifying repo owner/model-repo@main, equivalent to: '' @ [CHR 0x60]
                 @ ''hf cache verify owner/model-repo --revision main'' @ [CHR 0x60]) [],
       VerifyRepoChecksums ''owner/model-repo'' None (Some ''main''),
       Log ERROR ''Repository owner/model-repo not found: 404 Client Error'' []],
      0)
   \<and> drop 3 (fst (snd (verify_cache
        (example_system PNone 0 []
           (Inr \<lparr>checked_count = 2, verified_path = ''/cache/snapshots/abc'',
                 mismatches = [\<lparr>path = ''model.gguf'', expected = ''aa11'', actual = ''bb22'',
                                algorithm = ''sha256''\<rparr>]\<rparr>))
        ''owner/model-repo'' None (Some ''main'') 0)))
     = [Log ERROR ''  - model.gguf: expected aa11 (sha256), got bb22'' []]"
proof
  let ?sys = "example_system PNone 0 [] (Inl (RepositoryNotFoundError ''404 Client Error''))"
  have h: "verify_repo_checksums ?sys ''owner/model-repo'' None (Some ''main'') 0
           = (Inl (RepositoryNotFoundError ''404 Client Error''), 0)"
    by (simp add: example_system_def)
  from verify_cache_handled [OF h]
  have "fst (verify_cache ?sys ''owner/model-repo'' None (Some ''main'') 0) = Inr ()"
    by simp
  then show "verify_cache ?sys ''owner/model-repo'' None (Some ''main'') 0
   = (Inr (),
      [Log INFO (''Verifying repo owner/model-repo@main, equivalent to: '' @ [CHR 0x60]
                 @ ''hf cache verify owner/model-repo --revision main'' @ [CHR 0x60]) [],
       VerifyRepoChecksums ''owner/model-repo'' None (Some ''main''),
       Log ERROR ''Repository owner/model-repo not found: 404 Client Error'' []],
      0)"
    by (simp add: verify_cache_def example_system_def at_ref_def)
next
  let ?res = "\<lparr>checked_count = 2, verified_path = ''/cache/snapshots/abc'',
                 mismatches = [\<lparr>path = ''model.gguf'', expected = ''aa11'', actual = ''bb22'',
                                algorithm = ''sha256''\<rparr>]\<rparr>"
  let ?sys = "example_system PNone 0 [] (Inr ?res)"
  have h: "verify_repo_checksums ?sys ''owner/model-repo'' None (Some ''main'') 0
           = (Inr ?res, 0)"
    by (simp add: example_system_def)
  from verify_cache_handled [OF h]
  show "drop 3 (fst (snd (verify_cache ?sys ''owner/model-repo'' None (Some ''main'') 0)))
     = [Log ERROR ''  - model.gguf: expected aa11 (sha256), got bb22'' []]"
    by simp
qed

subsection \<open>The loop over the entries\<close>


text \<open>In a dry run the loop returns, leaves the world as it is, and gives one event per entry.\<close>

lemma process_entries_dry:
  "process_entries sys True entries w = (Inr (), map dry_run_event entries, w)"
  by (induction entries) (simp_all add: dry_run_event_def Let_def)




subsection \<open>The captures of the cache listing\<close>

lemma get_cache_listing_captures:
  "filter is_cache_listing (fst (snd (get_cache_listing sys w)))
     = [SubprocessRun [''hf'', ''cache'', ''ls'']]"
  by (auto simp: get_cache_listing_def is_cache_listing_def
      split: prod.splits sum.splits exn.splits)

lemma get_cache_listing_no_hub_call:
  "list_all (\<lambda>ev. \<not> is_hub_call ev) (fst (snd (get_cache_listing sys w)))"
  by (auto simp: get_cache_listing_def split: prod.splits sum.splits exn.splits)

lemma filter_Log_cache_listing:
  "filter is_cache_listing (map (\<lambda>line. Log lvl (f line) []) ls) = []"
  by (induction ls) (simp_all add: is_cache_listing_def)

lemma show_final_captures:
  "filter is_cache_listing (fst (snd (show_final sys initial_cache w)))
     = [SubprocessRun [''hf'', ''cache'', ''ls'']]"
proof -
  obtain r evs w' where g: "get_cache_listing sys w = (r, evs, w')"
    by (cases "get_cache_listing sys w")
  from get_cache_listing_captures [of sys w] g
  have "filter is_cache_listing evs = [SubprocessRun [''hf'', ''cache'', ''ls'']]"
    by simp
  with g show ?thesis
    by (cases r)
       (simp_all add: show_final_def Let_def filter_Log_cache_listing is_cache_listing_def)
qed

lemma show_final_no_hub_call:
  "list_all (\<lambda>ev. \<not> is_hub_call ev) (fst (snd (show_final sys initial_cache w)))"
proof -
  obtain r evs w' where g: "get_cache_listing sys w = (r, evs, w')"
    by (cases "get_cache_listing sys w")
  from get_cache_listing_no_hub_call [of sys w] g
  have "list_all (\<lambda>ev. \<not> is_hub_call ev) evs"
    by simp
  with g show ?thesis
    by (cases r) (auto simp: show_final_def Let_def list_all_iff)
qed

text \<open>The end of the run returns when the listing does.\<close>

lemma show_final_returns:
  "get_cache_listing sys w = (Inr final_cache, evs, w') \<Longrightarrow>
   fst (show_final sys initial_cache w) = Inr ()"
  by (simp add: show_final_def Let_def)

lemma load_manifest_events:
  "snd (load_manifest sys file_path) = [IsFile file_path]
   \<or> snd (load_manifest sys file_path) = [IsFile file_path, OpenRead file_path]"
  by (simp add: load_manifest_def Let_def split: option.splits sum.splits)

text \<open>
  Claim C2, as amended. When the loaded manifest has no entries, the entry point logs
  the notice and captures no listing before it; the end of the run, with its one
  capture of the listing, still follows the notice, the diff being taken against an
  empty initial listing. The run returns when that listing returns.
\<close>

theorem main_no_models:
  assumes "\<not> version a"
      and "load_manifest sys (manifest a) = (Inr data, evs0)"
      and "models data = []"
      and "get_cache_listing sys w = (Inr final_cache, evs, w')"
  shows "main sys a w =
           (Inr (),
            BasicConfig INFO ''%(message)s'' # evs0
            @ [Log INFO ''No models defined in %s'' [ArgPath (manifest a)]]
            @ fst (snd (show_final sys [] w)),
            snd (snd (show_final sys [] w)))
         \<and> filter is_cache_listing (BasicConfig INFO ''%(message)s'' # evs0
              @ [Log INFO ''No models defined in %s'' [ArgPath (manifest a)]]) = []
         \<and> filter is_cache_listing (fst (snd (show_final sys [] w)))
              = [SubprocessRun [''hf'', ''cache'', ''ls'']]"
proof (intro conjI)
  from show_final_returns [OF assms(4)]
  have "fst (show_final sys [] w) = Inr ()" .
  then show "main sys a w =
           (Inr (),
            BasicConfig INFO ''%(message)s'' # evs0
            @ [Log INFO ''No models defined in %s'' [ArgPath (manifest a)]]
            @ fst (snd (show_final sys [] w)),
            snd (snd (show_final sys [] w)))"
    using assms(1-3) by (cases "show_final sys [] w") (simp add: main_def Let_def)
  from load_manifest_events [of sys "manifest a"] assms(2)
  have "evs0 = [IsFile (manifest a)] \<or> evs0 = [IsFile (manifest a), OpenRead (manifest a)]"
    by simp
  then show "filter is_cache_listing (BasicConfig INFO ''%(message)s'' # evs0
              @ [Log INFO ''No models defined in %s'' [ArgPath (manifest a)]]) = []"
    by (auto simp: is_cache_listing_def)
  show "filter is_cache_listing (fst (snd (show_final sys [] w)))
              = [SubprocessRun [''hf'', ''cache'', ''ls'']]"
    by (rule show_final_captures)
qed

text \<open>
  Claim C2 as it was stated fails on a manifest with \<open>models: []\<close>: the run captures
  the cache listing once.
\<close>

theorem main_no_models_counterexample:
  "filter is_cache_listing
     (fst (snd (main (example_system (PDict [(''models'', PList [])]) 0 []
                        (Inl (OtherError [])))
                     \<lparr>manifest = ''facehugger.yaml'', dry_run = False, version = False\<rparr> 0)))
   = [SubprocessRun [''hf'', ''cache'', ''ls'']]"
  by (simp add: main_def load_manifest_def model_validate_def example_system_def show_final_def
      get_cache_listing_def subprocess_run_def text_mode_def decode_ascii_def splitlines_def
      splitlines_from_Nil is_cache_listing_def difflib_unified_diff_same)

text \<open>
  The whole run on a manifest without entries, the cache holding one line: the line is
  new against the empty initial listing, and the diff, joined without line ends, is
  logged as one line.
\<close>

theorem main_no_models_witness:
  "main (example_system (PDict [(''models'', PList [])]) 0 ''cached'' (Inl (OtherError [])))
        \<lparr>manifest = ''facehugger.yaml'', dry_run = False, version = False\<rparr> 0
   = (Inr (),
      [BasicConfig INFO ''%(message)s'', IsFile ''facehugger.yaml'', OpenRead ''facehugger.yaml'',
       Log INFO ''No models defined in %s'' [ArgPath ''facehugger.yaml''],
       SubprocessRun [''hf'', ''cache'', ''ls''],
       Log INFO (CHR 0x0A # ''Final cache state:'') [],
       Log INFO ''cached'' [],
       Log INFO (CHR 0x0A # ''Cache changes (colourised):'') [],
       Log INFO ''--- initial+++ final@@ -0,0 +1 @@+cached'' []],
      0)"
proof -
  let ?sys = "example_system (PDict [(''models'', PList [])]) 0 ''cached'' (Inl (OtherError []))"
  let ?a = "\<lparr>manifest = ''facehugger.yaml'', dry_run = False, version = False\<rparr>"
  have h1: "\<not> version ?a" by simp
  have h2: "load_manifest ?sys (manifest ?a)
            = (Inr \<lparr>models = []\<rparr>, [IsFile ''facehugger.yaml'', OpenRead ''facehugger.yaml''])"
    by (simp add: load_manifest_def model_validate_def example_system_def)
  have h3: "models \<lparr>models = []\<rparr> = []" by simp
  have diff: "difflib_unified_diff [] [''cached''] ''initial'' ''final'' []
        = [''--- initial'', ''+++ final'', ''@@ -0,0 +1 @@'', ''+cached'']"
    by (simp add: difflib_unified_diff_def get_grouped_opcodes_def get_opcodes_def
        get_matching_blocks_def mb_loop.simps find_longest_match_def extend_back.simps
        extend_forward.simps sort_matches_def format_range_unified_def slice_def str_nat.simps
        Let_def)
  have h4: "get_cache_listing ?sys 0
            = (Inr [''cached''], [SubprocessRun [''hf'', ''cache'', ''ls'']], 0)"
    by (simp add: get_cache_listing_def subprocess_run_def text_mode_def decode_ascii_def
        example_system_def splitlines_def splitlines_from_Nil splitlines_from_Cons
        line_break_len_def)
  have "show_final ?sys [] 0
        = (Inr (),
           [SubprocessRun [''hf'', ''cache'', ''ls''],
            Log INFO (CHR 0x0A # ''Final cache state:'') [],
            Log INFO ''cached'' [],
            Log INFO (CHR 0x0A # ''Cache changes (colourised):'') [],
            Log INFO ''--- initial+++ final@@ -0,0 +1 @@+cached'' []], 0)"
    unfolding show_final_def h4
    by (simp add: example_system_def splitlines_def splitlines_from_Nil splitlines_from_Cons
        line_break_len_def diff colourise_def startswith_def)
  with main_no_models [OF h1 h2 h3 h4] show ?thesis by simp
qed

subsection \<open>The dry run\<close>

lemma dry_run_event_no_hub_call: "\<not> is_hub_call (dry_run_event entry)"
  by (simp add: dry_run_event_def)

lemma filter_command_log_dry_run:
  "filter is_command_log (map dry_run_event entries)
     = map dry_run_event (filter (\<lambda>entry. repo entry \<noteq> []) entries)"
  by (induction entries) (simp_all add: dry_run_event_def startswith_def)

text \<open>
  Claim C5, as amended. With \<open>--dry-run\<close> and a manifest that has entries, the run
  returns when the two listings return; no event of its trace is a download or a
  verification; between the initial listing and the end of the run, which starts from
  the world as the initial listing left it, the trace holds one event per entry, in
  the order of the manifest: the equivalent command for an entry whose \<open>repo\<close> is
  not empty, the warning for an entry whose \<open>repo\<close> is empty. So the commands shown
  are those of the entries with a \<open>repo\<close>, one each.
\<close>

theorem main_dry_run:
  assumes "\<not> version a" and "dry_run a"
      and "load_manifest sys (manifest a) = (Inr data, evs0)"
      and "models data \<noteq> []"
      and "get_cache_listing sys w = (Inr initial_cache, evs1, w1)"
      and "get_cache_listing sys w1 = (Inr final_cache, evs2, w2)"
  shows "main sys a w =
           (Inr (),
            (BasicConfig INFO ''%(message)s'' # evs0 @ evs1
             @ [Log INFO (CHR 0x0A # ''Initial cache state:'') []]
             @ map (\<lambda>line. Log INFO line []) initial_cache)
            @ map dry_run_event (models data)
            @ fst (snd (show_final sys initial_cache w1)),
            snd (snd (show_final sys initial_cache w1)))
         \<and> list_all (\<lambda>ev. \<not> is_hub_call ev) (fst (snd (main sys a w)))
         \<and> filter is_command_log (map dry_run_event (models data))
             = map dry_run_event (filter (\<lambda>entry. repo entry \<noteq> []) (models data))"
proof (intro conjI)
  from show_final_returns [OF assms(6)]
  have "fst (show_final sys initial_cache w1) = Inr ()" .
  then show run: "main sys a w =
           (Inr (),
            (BasicConfig INFO ''%(message)s'' # evs0 @ evs1
             @ [Log INFO (CHR 0x0A # ''Initial cache state:'') []]
             @ map (\<lambda>line. Log INFO line []) initial_cache)
            @ map dry_run_event (models data)
            @ fst (snd (show_final sys initial_cache w1)),
            snd (snd (show_final sys initial_cache w1)))"
    using assms(1-5)
    by (cases "show_final sys initial_cache w1")
       (simp add: main_def Let_def process_entries_dry)
  from load_manifest_events [of sys "manifest a"] assms(3)
  have "evs0 = [IsFile (manifest a)] \<or> evs0 = [IsFile (manifest a), OpenRead (manifest a)]"
    by simp
  then have e0: "list_all (\<lambda>ev. \<not> is_hub_call ev) evs0" by auto
  from get_cache_listing_no_hub_call [of sys w] assms(5)
  have e1: "list_all (\<lambda>ev. \<not> is_hub_call ev) evs1" by simp
  have e2: "list_all (\<lambda>ev. \<not> is_hub_call ev) (map (\<lambda>line. Log INFO line []) initial_cache)"
    by (simp add: list_all_iff image_iff)
  have e3: "list_all (\<lambda>ev. \<not> is_hub_call ev) (map dry_run_event (models data))"
    by (simp add: list_all_iff dry_run_event_no_hub_call)
  from e0 e1 e2 e3 show_final_no_hub_call [of sys initial_cache w1]
  show "list_all (\<lambda>ev. \<not> is_hub_call ev) (fst (snd (main sys a w)))"
    unfolding run by simp
  show "filter is_command_log (map dry_run_event (models data))
             = map dry_run_event (filter (\<lambda>entry. repo entry \<noteq> []) (models data))"
    by (rule filter_command_log_dry_run)
qed

text \<open>
  Claim C5 as it was stated fails on a manifest whose one entry has an empty
  \<open>repo\<close>: the manifest passes validation, and the dry run shows no command.
\<close>

theorem main_dry_run_counterexample:
  "fst (load_manifest (example_system (PDict [(''models'', PList [PDict [(''repo'', PStr [])]])])
                         0 [] (Inl (OtherError [])))
          ''facehugger.yaml'')
     = Inr \<lparr>models = [\<lparr>repo = [], ref = Some ''main'', include_patterns = None,
                        exclude_patterns = None\<rparr>]\<rparr>
   \<and> filter is_command_log
       (fst (snd (main (example_system (PDict [(''models'', PList [PDict [(''repo'', PStr [])]])])
                          0 [] (Inl (OtherError [])))
                       \<lparr>manifest = ''facehugger.yaml'', dry_run = True, version = False\<rparr> 0)))
     = []"
  by (simp add: main_def load_manifest_def model_validate_def validate_ModelConfig_def
      example_system_def show_final_def get_cache_listing_def subprocess_run_def text_mode_def
      decode_ascii_def splitlines_def splitlines_from_Nil startswith_def
      difflib_unified_diff_same)

text \<open>The dry run on a manifest of two entries, the cache being empty.\<close>

theorem main_dry_run_witness:
  "main (example_system
           (PDict [(''models'',
              PList [PDict [(''repo'', PStr ''test/model1''), (''include'', PStr ''*.gguf'')],
                     PDict [(''repo'', PStr ''test/model2''), (''ref'', PStr ''v1.0'')]])])
           0 [] (Inl (OtherError [])))
        \<lparr>manifest = ''facehugger.yaml'', dry_run = True, version = False\<rparr> 0
   = (Inr (),
      [BasicConfig INFO ''%(message)s'', IsFile ''facehugger.yaml'', OpenRead ''facehugger.yaml'',
       SubprocessRun [''hf'', ''cache'', ''ls''],
       Log INFO (CHR 0x0A # ''Initial cache state:'') [],
       Log INFO (''Equivalent command: '' @ [CHR 0x60]
                 @ ''hf download test/model1@main --include *.gguf'' @ [CHR 0x60]) [],
       Log INFO (''Equivalent command: '' @ [CHR 0x60]
                 @ ''hf download test/model2@v1.0'' @ [CHR 0x60]) [],
       SubprocessRun [''hf'', ''cache'', ''ls''],
       Log INFO (CHR 0x0A # ''Final cache state:'') []],
      0)"
proof -
  let ?doc = "PDict [(''models'',
              PList [PDict [(''repo'', PStr ''test/model1''), (''include'', PStr ''*.gguf'')],
                     PDict [(''repo'', PStr ''test/model2''), (''ref'', PStr ''v1.0'')]])]"
  let ?sys = "example_system ?doc 0 [] (Inl (OtherError []))"
  let ?a = "\<lparr>manifest = ''facehugger.yaml'', dry_run = True, version = False\<rparr>"
  let ?data = "\<lparr>models =
       [\<lparr>repo = ''test/model1'', ref = Some ''main'', include_patterns = Some (Single ''*.gguf''),
         exclude_patterns = None\<rparr>,
        \<lparr>repo = ''test/model2'', ref = Some ''v1.0'', include_patterns = None,
         exclude_patterns = None\<rparr>]\<rparr>"
  have h1: "\<not> version ?a" and h2: "dry_run ?a" by simp_all
  have h3: "load_manifest ?sys (manifest ?a)
            = (Inr ?data, [IsFile ''facehugger.yaml'', OpenRead ''facehugger.yaml''])"
    by (simp add: load_manifest_def model_validate_def validate_ModelConfig_def
        example_system_def)
  have h4: "models ?data \<noteq> []" by simp
  have h5: "get_cache_listing ?sys 0
            = (Inr [], [SubprocessRun [''hf'', ''cache'', ''ls'']], 0)"
    by (simp add: get_cache_listing_def subprocess_run_def text_mode_def decode_ascii_def
        example_system_def splitlines_def splitlines_from_Nil)
  have fin: "show_final ?sys [] 0
        = (Inr (),
           [SubprocessRun [''hf'', ''cache'', ''ls''],
            Log INFO (CHR 0x0A # ''Final cache state:'') []], 0)"
    unfolding show_final_def h5
    by (simp add: example_system_def difflib_unified_diff_same)
  have evs: "map dry_run_event (models ?data)
        = [Log INFO (''Equivalent command: '' @ [CHR 0x60]
                 @ ''hf download test/model1@main --include *.gguf'' @ [CHR 0x60]) [],
           Log INFO (''Equivalent command: '' @ [CHR 0x60]
                 @ ''hf download test/model2@v1.0'' @ [CHR 0x60]) []]"
    by (simp add: dry_run_event_def build_hf_command_def extend_flag_def)
  from main_dry_run [OF h1 h2 h3 h4 h5 h5] have "main ?sys ?a 0 =
           (Inr (),
            (BasicConfig INFO ''%(message)s''
             # [IsFile ''facehugger.yaml'', OpenRead ''facehugger.yaml'']
             @ [SubprocessRun [''hf'', ''cache'', ''ls'']]
             @ [Log INFO (CHR 0x0A # ''Initial cache state:'') []]
             @ map (\<lambda>line. Log INFO line []) [])
            @ map dry_run_event (models ?data)
            @ fst (snd (show_final ?sys [] 0)),
            snd (snd (show_final ?sys [] 0)))"
    by blast
  then show ?thesis
    unfolding evs fin by simp
qed

subsection \<open>Identical listings\<close>

text \<open>
  Claim C9. The diff of a listing with itself has no line, whatever the listing is;
  and when the final listing returns and is the listing the diff is taken against, the
  end of the run logs the final listing and nothing after it: the section of the
  changes is skipped.
\<close>

theorem identical_listings_no_diff:
  assumes "unified_diff sys = difflib_unified_diff"
      and "get_cache_listing sys w = (Inr L, evs, w')"
  shows "difflib_unified_diff L L fromfile tofile lineterm = []
         \<and> show_final sys L w =
             (Inr (),
              evs @ [Log INFO (CHR 0x0A # ''Final cache state:'') []]
                  @ map (\<lambda>line. Log INFO line []) L,
              w')"
  using assms by (simp add: show_final_def difflib_unified_diff_same)

text \<open>A cache of two lines that the run has not changed.\<close>

theorem identical_listings_no_diff_witness:
  "difflib_unified_diff [''model a'', ''model b''] [''model a'', ''model b'']
     ''initial'' ''final'' [] = []
   \<and> show_final
         (example_system PNone 0 (''model a'' @ [CHR 0x0A] @ ''model b'' @ [CHR 0x0A])
            (Inl (OtherError [])))
         [''model a'', ''model b''] 0
     = (Inr (),
        [SubprocessRun [''hf'', ''cache'', ''ls''],
         Log INFO (CHR 0x0A # ''Final cache state:'') [],
         Log INFO ''model a'' [], Log INFO ''model b'' []],
        0)"
proof -
  let ?out = "''model a'' @ [CHR 0x0A] @ ''model b'' @ [CHR 0x0A]"
  let ?sys = "example_system PNone 0 ?out (Inl (OtherError []))"
  have h1: "unified_diff ?sys = difflib_unified_diff"
    by (simp add: example_system_def)
  have "splitlines ?out = [''model a'', ''model b'']"
    by (simp add: splitlines_def splitlines_from_Nil splitlines_from_Cons line_break_len_def)
  then have h2: "get_cache_listing ?sys 0
                 = (Inr [''model a'', ''model b''], [SubprocessRun [''hf'', ''cache'', ''ls'']], 0)"
    by (simp add: get_cache_listing_def subprocess_run_def text_mode_def decode_ascii_def
        example_system_def)
  from identical_listings_no_diff [OF h1 h2, of "''initial''" "''final''" "[]"]
  show ?thesis by simp
qed

end
